theory Spec2Isabelle
  imports Main
begin

section \<open>Strings\<close>

text \<open>
  A JavaScript string is a sequence of UTF-16 code units. Values whose characters the
  program classifies (user-entered text, names, email addresses) are \<open>ustring\<close>: lists of
  code units. Identifiers, paths, fixed labels and error messages, which the program only
  compares, concatenates or searches for an ASCII pattern, are \<open>string\<close>. \<open>js\<close> writes
  an ASCII literal as such a list.

  \<open>is_space\<close> is the set that both \<open>trim()\<close> and the pattern \<open>\s\<close> use: the
  language's WhiteSpace and LineTerminator code points (tab, line feed, vertical tab,
  form feed, carriage return, space, U+00A0, U+1680, U+2000 to U+200A, U+2028, U+2029,
  U+202F, U+205F, U+3000, U+FEFF), each a single code unit. \<open>s.split(c)\<close> is for a
  one-unit separator; \<open>includes\<close> (written \<open>includes_str\<close>) is the substring test.
  \<open>toLowerCase()\<close> is a built-in of the language over all of Unicode: the functions
  that call it take it as their first argument.
\<close>

type_synonym ustring = "nat list"

definition js :: "string \<Rightarrow> ustring" where
  "js s = map of_char s"

definition is_space :: "nat \<Rightarrow> bool" where
  "is_space c =
     (c \<in> set [0x09, 0x0A, 0x0B, 0x0C, 0x0D, 0x20, 0xA0, 0x1680, 0x2028, 0x2029, 0x202F,
                0x205F, 0x3000, 0xFEFF]
      \<or> (0x2000 \<le> c \<and> c \<le> 0x200A))"

definition trim :: "ustring \<Rightarrow> ustring" where
  "trim s = rev (dropWhile is_space (rev (dropWhile is_space s)))"

fun split :: "'a \<Rightarrow> 'a list \<Rightarrow> 'a list list" where
  "split c [] = [[]]"
| "split c (x # xs) =
     (if x = c then [] # split c xs
      else (case split c xs of [] \<Rightarrow> [[x]] | y # ys \<Rightarrow> (x # y) # ys))"

fun startsWith :: "string \<Rightarrow> string \<Rightarrow> bool" where
  "startsWith s [] = True"
| "startsWith [] (y # ys) = False"
| "startsWith (x # xs) (y # ys) = (x = y \<and> startsWith xs ys)"

fun includes_str :: "string \<Rightarrow> string \<Rightarrow> bool" where
  "includes_str [] t = (t = [])"
| "includes_str (x # xs) t = (startsWith (x # xs) t \<or> includes_str xs t)"

section \<open>Gateway replies, console output and identities\<close>

text \<open>
  Every call against the hosted backend is asynchronous. The client library resolves a
  call with either the data or an error object \<open>{message, code}\<close>; a rejected promise
  is the third possibility. The reply of each call is an input of the model.
\<close>

record gw_error =
  message :: string
  code :: string

datatype 'a reply = Ok 'a | Failed gw_error | Thrown string

datatype level = LOG | WARN | ERROR

type_synonym console_entry = "level \<times> string"

text \<open>The account object of the auth provider: \<open>user.id\<close>, \<open>user.email\<close>,
  \<open>user.user_metadata.full_name\<close> and \<open>user.user_metadata.avatar_url\<close>.\<close>

record identity_metadata =
  full_name :: "ustring option"
  meta_avatar_url :: "string option"

record auth_user =
  uid :: string
  email :: "ustring option"
  user_metadata :: "identity_metadata option"

section \<open>Rows held by the view caches\<close>

text \<open>
  \<open>Comment\<close> and \<open>Message\<close> are \<open>{id, content, created_at, user_id, profiles}\<close>;
  \<open>Post\<close> adds \<open>image_url\<close>, \<open>likes_count\<close>, \<open>comments_count\<close> and
  \<open>user_has_liked\<close>. The field \<open>id\<close> is written \<open>row_id\<close>. JavaScript numbers
  that hold counts are integers here.
\<close>

record profile_ref =
  username :: ustring
  avatar_url :: "string option"

record keyed =
  row_id :: string
  created_at :: string

record base_row = keyed +
  content :: ustring
  user_id :: string

record row = base_row +
  profiles :: profile_ref

record post_row = row +
  image_url :: "string option"

record post = post_row +
  likes_count :: int
  comments_count :: int
  user_has_liked :: bool

text \<open>A raw row of the \<open>messages\<close> table, as a change event carries it in \<open>payload.new\<close>.\<close>

record message_row = base_row +
  chat_id :: string

section \<open>Requests issued through the gateway\<close>

text \<open>
  \<open>InsertLike post_id user_id\<close>, \<open>DeleteLike post_id user_id\<close>,
  \<open>InsertNotification user_id type related_id from_user_id is_read\<close>,
  \<open>InsertComment post_id user_id content\<close>,
  \<open>InsertPost user_id content image_url\<close>, \<open>UploadImage path\<close>,
  \<open>InsertProfile id username avatar_url\<close>, and the two reads of profile provisioning.
\<close>

datatype request =
    InsertLike string string
  | DeleteLike string string
  | InsertNotification string string string string bool
  | InsertComment string string ustring
  | InsertPost string ustring "string option"
  | UploadImage string
  | ProfilesTableCheck
  | SelectProfile string
  | InsertProfile string ustring "string option"

fun is_notification :: "request \<Rightarrow> bool" where
  "is_notification (InsertNotification _ _ _ _ _) = True"
| "is_notification _ = False"

section \<open>Navigation: the unread-messages badge\<close>

text \<open>
  The \<open>messages\<close> channel subscribes to every INSERT on the table (no filter) and runs
  \<open>if (payload.new && payload.new.user_id !== user.id) setUnreadMessages((prev) => prev + 1)\<close>.
\<close>

record message_event =
  payload_new :: "message_row option"

definition counts_as_unread :: "string \<Rightarrow> message_event \<Rightarrow> bool" where
  "counts_as_unread viewer ev =
     (case payload_new ev of None \<Rightarrow> False | Some m \<Rightarrow> user_id m \<noteq> viewer)"

definition messageSubscription :: "string \<Rightarrow> message_event \<Rightarrow> nat \<Rightarrow> nat" where
  "messageSubscription viewer ev prev = (if counts_as_unread viewer ev then prev + 1 else prev)"

fun deliver_messages :: "string \<Rightarrow> message_event list \<Rightarrow> nat \<Rightarrow> nat" where
  "deliver_messages viewer [] prev = prev"
| "deliver_messages viewer (ev # evs) prev =
     deliver_messages viewer evs (messageSubscription viewer ev prev)"

text \<open>The viewer's chats are the rows \<open>(chat_id, user_id)\<close> of \<open>chat_members\<close>.\<close>

definition member_of :: "(string \<times> string) list \<Rightarrow> string \<Rightarrow> string \<Rightarrow> bool" where
  "member_of members viewer c = ((c, viewer) \<in> set members)"

section \<open>Feed: the posts cache and the like action\<close>

text \<open>
  The state of the home page: the Feed component's \<open>posts\<close>, \<open>loading\<close> and
  \<open>error\<close>, the CreatePost form (\<open>content\<close> is written \<open>form_content\<close>, its
  \<open>error\<close> is \<open>form_error\<close>), and what leaves the page: the requests issued
  through the gateway, the console output, and the like calls that are suspended at an
  \<open>await\<close>.
\<close>

record image_file =
  file_name :: string
  file_size :: nat
  file_type :: string

text \<open>
  What a running \<open>handlePostLike\<close> has captured: \<open>user\<close>, \<open>postId\<close>,
  \<open>postIndex\<close>, \<open>post = posts[postIndex]\<close> and \<open>newPosts = [...posts]\<close>, all taken
  from the \<open>posts\<close> of the render in which the button was pressed.
\<close>

record like_call =
  actor :: auth_user
  postId :: string
  postIndex :: nat
  target :: post
  newPosts :: "post list"

datatype pending =
    AwaitDelete like_call
  | AwaitInsert like_call
  | AwaitNotify "post list"

record home =
  posts :: "post list"
  loading :: bool
  error :: "string option"
  form_content :: ustring
  image :: "image_file option"
  imagePreview :: "string option"
  isSubmitting :: bool
  form_error :: "string option"
  inflight :: "pending list"
  issued :: "request list"
  console :: "console_entry list"

text \<open>\<open>posts.findIndex(p)\<close>: the first index whose element satisfies \<open>p\<close>; \<open>None\<close> is \<open>-1\<close>.\<close>

fun findIndex :: "('a \<Rightarrow> bool) \<Rightarrow> 'a list \<Rightarrow> nat option" where
  "findIndex p [] = None"
| "findIndex p (x # xs) = (if p x then Some 0 else map_option Suc (findIndex p xs))"

text \<open>The synchronous part of \<open>handlePostLike\<close>, up to its first \<open>await\<close>: the guards,
  the captured values, and the mutation that is issued.\<close>

definition handlePostLike_start ::
  "auth_user option \<Rightarrow> post list \<Rightarrow> string \<Rightarrow> (request \<times> pending) option" where
  "handlePostLike_start user ps pid =
     (case user of
        None \<Rightarrow> None
      | Some u \<Rightarrow>
          (case findIndex (\<lambda>p. row_id p = pid) ps of
             None \<Rightarrow> None
           | Some i \<Rightarrow>
               (let c = \<lparr>actor = u, postId = pid, postIndex = i, target = ps ! i, newPosts = ps\<rparr>
                in if user_has_liked (ps ! i)
                   then Some (DeleteLike pid (uid u), AwaitDelete c)
                   else Some (InsertLike pid (uid u), AwaitInsert c))))"

text \<open>
  What the call does when the awaited request resolves. \<open>Finished (Some ps) out\<close>: it
  reached \<open>setPosts(ps)\<close>; \<open>Finished None out\<close>: it returned early (or its promise was
  rejected) without touching the state; \<open>Suspended r p\<close>: it issued \<open>r\<close> and awaits it.
\<close>

datatype outcome =
    Finished "post list option" "console_entry list"
  | Suspended request pending

definition unliked :: "like_call \<Rightarrow> post list" where
  "unliked c = (newPosts c)[postIndex c :=
      (target c)\<lparr>likes_count := likes_count (target c) - 1, user_has_liked := False\<rparr>]"

definition liked :: "like_call \<Rightarrow> post list" where
  "liked c = (newPosts c)[postIndex c :=
      (target c)\<lparr>likes_count := likes_count (target c) + 1, user_has_liked := True\<rparr>]"

fun handlePostLike_resume :: "pending \<Rightarrow> unit reply \<Rightarrow> outcome" where
  "handlePostLike_resume (AwaitDelete c) (Failed e) = Finished None [(ERROR, ''Error unliking post:'')]"
| "handlePostLike_resume (AwaitDelete c) (Thrown x) = Finished None []"
| "handlePostLike_resume (AwaitDelete c) (Ok u) = Finished (Some (unliked c)) []"
| "handlePostLike_resume (AwaitInsert c) (Failed e) = Finished None [(ERROR, ''Error liking post:'')]"
| "handlePostLike_resume (AwaitInsert c) (Thrown x) = Finished None []"
| "handlePostLike_resume (AwaitInsert c) (Ok u) =
     (if user_id (target c) \<noteq> uid (actor c)
      then Suspended
             (InsertNotification (user_id (target c)) ''like'' (postId c) (uid (actor c)) False)
             (AwaitNotify (liked c))
      else Finished (Some (liked c)) [])"
| "handlePostLike_resume (AwaitNotify ps) (Thrown x) = Finished None []"
| "handlePostLike_resume (AwaitNotify ps) (Failed e) = Finished (Some ps) []"
| "handlePostLike_resume (AwaitNotify ps) (Ok u) = Finished (Some ps) []"

definition finish :: "post list option \<Rightarrow> console_entry list \<Rightarrow> home \<Rightarrow> home" where
  "finish res out w =
     w\<lparr>posts := (case res of None \<Rightarrow> posts w | Some ps \<Rightarrow> ps), console := console w @ out\<rparr>"

definition issue :: "request \<Rightarrow> home \<Rightarrow> home" where
  "issue r w = w\<lparr>issued := issued w @ [r]\<rparr>"

text \<open>
  \<open>handlePostLike\<close> run from the button press to its return with nothing else happening
  in between; \<open>gw\<close> gives the reply of each request.
\<close>

definition handlePostLike ::
  "(request \<Rightarrow> unit reply) \<Rightarrow> auth_user option \<Rightarrow> string \<Rightarrow> home \<Rightarrow> home" where
  "handlePostLike gw user pid w =
     (case handlePostLike_start user (posts w) pid of
        None \<Rightarrow> w
      | Some (r, p) \<Rightarrow>
          (case handlePostLike_resume p (gw r) of
             Finished res out \<Rightarrow> finish res out (issue r w)
           | Suspended r' p' \<Rightarrow>
               (case handlePostLike_resume p' (gw r') of
                  Finished res out \<Rightarrow> finish res out (issue r' (issue r w))
                | Suspended r'' p'' \<Rightarrow> issue r' (issue r w))))"

text \<open>
  The same handler under the event loop: a press starts a call, which stays in flight
  until its request settles; other presses and settlements may come in between.
  \<open>Settle k rep\<close> resolves the awaited request of the \<open>k\<close>-th call in flight.
\<close>

datatype feed_event = Tap string | Settle nat "unit reply"

definition tap :: "auth_user option \<Rightarrow> string \<Rightarrow> home \<Rightarrow> home" where
  "tap user pid w =
     (case handlePostLike_start user (posts w) pid of
        None \<Rightarrow> w
      | Some (r, p) \<Rightarrow> (issue r w)\<lparr>inflight := inflight w @ [p]\<rparr>)"

definition settle :: "nat \<Rightarrow> unit reply \<Rightarrow> home \<Rightarrow> home" where
  "settle k rep w =
     (if length (inflight w) \<le> k then w
      else (case handlePostLike_resume (inflight w ! k) rep of
              Finished res out \<Rightarrow>
                finish res out (w\<lparr>inflight := take k (inflight w) @ drop (Suc k) (inflight w)\<rparr>)
            | Suspended r p \<Rightarrow> (issue r w)\<lparr>inflight := (inflight w)[k := p]\<rparr>))"

fun feed_step :: "auth_user option \<Rightarrow> feed_event \<Rightarrow> home \<Rightarrow> home" where
  "feed_step user (Tap pid) w = tap user pid w"
| "feed_step user (Settle k rep) w = settle k rep w"

fun feed_run :: "auth_user option \<Rightarrow> feed_event list \<Rightarrow> home \<Rightarrow> home" where
  "feed_run user [] w = w"
| "feed_run user (e # es) w = feed_run user es (feed_step user e w)"

text \<open>A toggle that completes before anything else happens: the press, then the
  successful reply of every request it awaits.\<close>

definition toggle :: "auth_user option \<Rightarrow> string \<Rightarrow> home \<Rightarrow> home" where
  "toggle user pid w = handlePostLike (\<lambda>r. Ok ()) user pid w"

fun toggles :: "nat \<Rightarrow> auth_user option \<Rightarrow> string \<Rightarrow> home \<Rightarrow> home" where
  "toggles 0 user pid w = w"
| "toggles (Suc n) user pid w = toggles n user pid (toggle user pid w)"

text \<open>One completed toggle of a cached post, the requests that are like mutations, and
  the events that concern one post: presses on it and settlements.\<close>


definition flip :: "post \<Rightarrow> post" where
  "flip p = p\<lparr>likes_count := likes_count p + (if user_has_liked p then - 1 else 1),
              user_has_liked := \<not> user_has_liked p\<rparr>"

definition is_like_mutation :: "request \<Rightarrow> bool" where
  "is_like_mutation r = (case r of InsertLike a b \<Rightarrow> True | DeleteLike a b \<Rightarrow> True | _ \<Rightarrow> False)"

definition on_post :: "string \<Rightarrow> feed_event \<Rightarrow> bool" where
  "on_post pid e = (case e of Tap q \<Rightarrow> q = pid | Settle k rep \<Rightarrow> True)"

text \<open>
  What stays true while presses on the post at index \<open>i\<close> of the cache \<open>P\<close> and
  settlements interleave: the cache, and every snapshot held by a call in flight, is
  \<open>P\<close> or \<open>P\<close> with that post toggled once.
\<close>

fun pending_ok :: "post list \<Rightarrow> nat \<Rightarrow> pending \<Rightarrow> bool" where
  "pending_ok P i (AwaitDelete c) =
     ((newPosts c = P \<or> newPosts c = P[i := flip (P ! i)]) \<and> postIndex c = i
      \<and> target c = newPosts c ! i \<and> user_has_liked (target c))"
| "pending_ok P i (AwaitInsert c) =
     ((newPosts c = P \<or> newPosts c = P[i := flip (P ! i)]) \<and> postIndex c = i
      \<and> target c = newPosts c ! i \<and> \<not> user_has_liked (target c))"
| "pending_ok P i (AwaitNotify ps) = (ps = P \<or> ps = P[i := flip (P ! i)])"

definition like_inv :: "post list \<Rightarrow> nat \<Rightarrow> home \<Rightarrow> bool" where
  "like_inv P i w =
     ((posts w = P \<or> posts w = P[i := flip (P ! i)]) \<and> list_all (pending_ok P i) (inflight w))"

section \<open>CommentSection: submitting a comment\<close>

text \<open>
  The component's state (\<open>loading\<close> is written \<open>comments_loading\<close>) with the requests it
  issued and its console output. \<open>handleSubmit\<close> of this component is
  \<open>handleSubmit_comment\<close>; \<open>postId\<close> and \<open>postUserId\<close> are its props.
\<close>

record comment_section =
  comments :: "row list"
  newComment :: ustring
  comments_loading :: bool
  submitting :: bool
  comment_issued :: "request list"
  comment_console :: "console_entry list"

definition comment_caught :: "comment_section \<Rightarrow> comment_section" where
  "comment_caught c =
     c\<lparr>comment_console := comment_console c @ [(ERROR, ''Error submitting comment:'')],
       submitting := False\<rparr>"

definition handleSubmit_comment ::
  "(request \<Rightarrow> unit reply) \<Rightarrow> auth_user option \<Rightarrow> string \<Rightarrow> string \<Rightarrow> comment_section
     \<Rightarrow> comment_section" where
  "handleSubmit_comment gw user pid postUserId c =
     (case user of
        None \<Rightarrow> c
      | Some u \<Rightarrow>
          if trim (newComment c) = [] then c
          else
            (let ins = InsertComment pid (uid u) (trim (newComment c));
                 c1 = c\<lparr>submitting := True, comment_issued := comment_issued c @ [ins]\<rparr>
             in case gw ins of
                  Failed e \<Rightarrow> comment_caught c1
                | Thrown x \<Rightarrow> comment_caught c1
                | Ok v \<Rightarrow>
                    if uid u \<noteq> postUserId
                    then
                      (let note = InsertNotification postUserId ''comment'' pid (uid u) False;
                           c2 = c1\<lparr>comment_issued := comment_issued c1 @ [note]\<rparr>
                       in case gw note of
                            Thrown x \<Rightarrow> comment_caught c2
                          | Failed e \<Rightarrow> c2\<lparr>newComment := [], submitting := False\<rparr>
                          | Ok v' \<Rightarrow> c2\<lparr>newComment := [], submitting := False\<rparr>)
                    else c1\<lparr>newComment := [], submitting := False\<rparr>))"

section \<open>Change events merged into the view caches\<close>

text \<open>
  Each INSERT handler is asynchronous. When an event is delivered it starts the fetch of
  the new row by \<open>payload.new.id\<close> and awaits it; when that fetch resolves it returns
  on an error and otherwise writes the cache: \<open>[...prev, data]\<close> for comments and chat
  messages, \<open>[data, ...prev]\<close> for feed posts and notifications. The functions below
  are the handlers from the resolution of the fetch on; its reply is their argument.
\<close>

record notification = keyed +
  ntype :: string
  related_id :: string
  from_user_id :: string
  is_read :: bool
  from_user :: profile_ref

definition commentsSubscription :: "row reply \<Rightarrow> row list \<Rightarrow> row list" where
  "commentsSubscription fetched prevComments =
     (case fetched of Ok d \<Rightarrow> prevComments @ [d] | Failed e \<Rightarrow> prevComments
      | Thrown x \<Rightarrow> prevComments)"

definition messagesSubscription :: "row reply \<Rightarrow> row list \<Rightarrow> row list" where
  "messagesSubscription fetched prevMessages =
     (case fetched of Ok d \<Rightarrow> prevMessages @ [d] | Failed e \<Rightarrow> prevMessages
      | Thrown x \<Rightarrow> prevMessages)"

definition notificationsSubscription ::
  "notification reply \<Rightarrow> notification list \<Rightarrow> notification list" where
  "notificationsSubscription fetched prevNotifications =
     (case fetched of Ok d \<Rightarrow> d # prevNotifications | Failed e \<Rightarrow> prevNotifications
      | Thrown x \<Rightarrow> prevNotifications)"

text \<open>
  The feed's fetch selects the post row with \<open>likes_count:likes(count)\<close>,
  \<open>comments_count:comments(count)\<close> and \<open>user_has_liked:likes!inner(user_id)\<close>, by
  \<open>.eq("id", payload.new.id).single()\<close>. The last embedding is an inner join: the
  backend returns the post only together with at least one of its like rows, so the row
  that reaches the handler carries a first like (\<open>liker\<close>) and the others
  (\<open>more_likers\<close>). \<open>newPost\<close> takes \<open>[0]?.count || 0\<close> of the two counts and
  \<open>some((like) => like.user_id === user.id)\<close> of the likes.
\<close>

record fetched_post =
  data :: post_row
  likes_agg :: "int list"
  comments_agg :: "int list"
  liker :: string
  more_likers :: "string list"

definition first_count :: "int list \<Rightarrow> int" where
  "first_count cs = (case cs of [] \<Rightarrow> 0 | c # rest \<Rightarrow> c)"

definition newPost :: "auth_user \<Rightarrow> fetched_post \<Rightarrow> post" where
  "newPost u f =
     \<lparr>row_id = row_id (data f), created_at = created_at (data f), content = content (data f),
      user_id = user_id (data f), profiles = profiles (data f), image_url = image_url (data f),
      likes_count = first_count (likes_agg f), comments_count = first_count (comments_agg f),
      user_has_liked = list_ex (\<lambda>l. l = uid u) (liker f # more_likers f)\<rparr>"

definition postsSubscription :: "auth_user \<Rightarrow> fetched_post reply \<Rightarrow> post list \<Rightarrow> post list" where
  "postsSubscription u fetched prevPosts =
     (case fetched of Ok f \<Rightarrow> newPost u f # prevPosts | Failed e \<Rightarrow> prevPosts
      | Thrown x \<Rightarrow> prevPosts)"

text \<open>
  What the backend holds for the fetched id when the fetch runs: the post row, the
  answers of the two count embeddings, and the \<open>user_id\<close>s of the post's like rows.
  \<open>fetchNewPost\<close> is the reply of the fetch: the call may fail or throw; otherwise
  \<open>.single()\<close> gives an error unless exactly one row comes back, and none comes back
  when the post is missing or has no like row to join.
\<close>

record post_answer =
  found :: post_row
  likes_answer :: "int list"
  comments_answer :: "int list"
  like_rows :: "string list"

datatype fault = Fine | Fails gw_error | Throws string

definition no_rows :: gw_error where
  "no_rows = \<lparr>message = ''JSON object requested, multiple (or no) rows returned'',
     code = ''PGRST116''\<rparr>"

definition fetchNewPost :: "fault \<Rightarrow> post_answer option \<Rightarrow> fetched_post reply" where
  "fetchNewPost fl held =
     (case fl of
        Throws x \<Rightarrow> Thrown x
      | Fails e \<Rightarrow> Failed e
      | Fine \<Rightarrow>
          (case held of
             None \<Rightarrow> Failed no_rows
           | Some a \<Rightarrow>
               (case like_rows a of
                  [] \<Rightarrow> Failed no_rows
                | l # ls \<Rightarrow>
                    Ok \<lparr>data = found a, likes_agg = likes_answer a,
                        comments_agg = comments_answer a, liker = l, more_likers = ls\<rparr>)))"

text \<open>The feed's handler on the home page, from the resolution of its fetch on.\<close>

definition on_post_insert :: "auth_user \<Rightarrow> fault \<Rightarrow> post_answer option \<Rightarrow> home \<Rightarrow> home" where
  "on_post_insert u fl held w = w\<lparr>posts := postsSubscription u (fetchNewPost fl held) (posts w)\<rparr>"

text \<open>
  A view under its subscription. \<open>Incoming i\<close>: an event for the row \<open>i\<close> is delivered
  and its handler starts the fetch; \<open>FetchSettled k rep\<close>: the \<open>k\<close>-th fetch in flight
  resolves with \<open>rep\<close> and its handler goes on. Fetches in flight may resolve in any
  order.
\<close>

datatype 'a sub_event = Incoming string | FetchSettled nat "'a reply"

record 'a view =
  cache :: "'a list"
  fetching :: "string list"

fun view_step :: "('r reply \<Rightarrow> 'a list \<Rightarrow> 'a list) \<Rightarrow> 'r sub_event \<Rightarrow> 'a view \<Rightarrow> 'a view" where
  "view_step h (Incoming i) v = v\<lparr>fetching := fetching v @ [i]\<rparr>"
| "view_step h (FetchSettled k rep) v =
     (if k < length (fetching v)
      then v\<lparr>cache := h rep (cache v),
             fetching := take k (fetching v) @ drop (Suc k) (fetching v)\<rparr>
      else v)"

fun view_run ::
  "('r reply \<Rightarrow> 'a list \<Rightarrow> 'a list) \<Rightarrow> 'r sub_event list \<Rightarrow> 'a view \<Rightarrow> 'a view" where
  "view_run h [] v = v"
| "view_run h (e # es) v = view_run h es (view_step h e v)"

text \<open>The rows whose fetch resolved with success during a run, in the order in which
  the fetches resolved; \<open>n\<close> is the number of fetches in flight at the start.\<close>

fun settled :: "'a sub_event list \<Rightarrow> nat \<Rightarrow> 'a list" where
  "settled [] n = []"
| "settled (Incoming i # es) n = settled es (Suc n)"
| "settled (FetchSettled k rep # es) n =
     (if k < n
      then (case rep of Ok d \<Rightarrow> [d] | Failed e \<Rightarrow> [] | Thrown x \<Rightarrow> []) @ settled es (n - 1)
      else settled es n)"

section \<open>CreatePost: submitting a post\<close>






section \<open>ChatList: starting a chat with another user\<close>

text \<open>
  The tables \<open>chats\<close> (\<open>name\<close> is written \<open>chat_name\<close>) and \<open>chat_members\<close>, whose
  rows are \<open>(chat_id, user_id)\<close>. A select returns the matching rows in table order;
  \<open>.single()\<close> gives the row when exactly one matches and an error otherwise. Besides
  that, each of the five calls of \<open>createOrGetChat\<close> may fail or throw: \<open>chat_faults\<close>.
  \<open>newId\<close> and \<open>now\<close> are the id and timestamp the backend gives an inserted chat.
\<close>

record chat = keyed +
  chat_name :: "string option"
  is_group :: bool
  created_by :: string

record backend =
  chats :: "chat list"
  chat_members :: "(string \<times> string) list"

record chat_faults =
  existingChatsFault :: fault
  matchingChatsFault :: fault
  chatFault :: fault
  newChatFault :: fault
  membersFault :: fault

record chat_list_run =
  backend_after :: backend
  pushed :: "string option"
  chat_console :: "console_entry list"

definition single :: "'a list \<Rightarrow> 'a option" where
  "single rows = (case rows of [x] \<Rightarrow> Some x | _ \<Rightarrow> None)"

definition chat_caught :: "backend \<Rightarrow> chat_list_run" where
  "chat_caught db =
     \<lparr>backend_after = db, pushed = None,
      chat_console = [(ERROR, ''Error creating or getting chat:'')]\<rparr>"

definition create_direct_chat ::
  "chat_faults \<Rightarrow> string \<Rightarrow> string \<Rightarrow> string \<Rightarrow> string \<Rightarrow> backend \<Rightarrow> chat_list_run" where
  "create_direct_chat fl newId now me other db =
     (case newChatFault fl of
        Fails e \<Rightarrow> chat_caught db
      | Throws x \<Rightarrow> chat_caught db
      | Fine \<Rightarrow>
          (let db1 = db\<lparr>chats := chats db @
                 [\<lparr>row_id = newId, created_at = now, chat_name = None, is_group = False,
                   created_by = me\<rparr>]\<rparr>
           in case membersFault fl of
                Fails e \<Rightarrow> chat_caught db1
              | Throws x \<Rightarrow> chat_caught db1
              | Fine \<Rightarrow>
                  \<lparr>backend_after =
                     db1\<lparr>chat_members := chat_members db1 @ [(newId, me), (newId, other)]\<rparr>,
                   pushed = Some (''/messages?chat='' @ newId), chat_console = []\<rparr>))"

definition createOrGetChat ::
  "chat_faults \<Rightarrow> string \<Rightarrow> string \<Rightarrow> string \<Rightarrow> string \<Rightarrow> backend \<Rightarrow> chat_list_run" where
  "createOrGetChat fl newId now me other db =
     (case existingChatsFault fl of
        Fails e \<Rightarrow> chat_caught db
      | Throws x \<Rightarrow> chat_caught db
      | Fine \<Rightarrow>
          (let existingChats = [c. (c, m) \<leftarrow> chat_members db, m = me]
           in if existingChats = [] then create_direct_chat fl newId now me other db
              else
                (case matchingChatsFault fl of
                   Fails e \<Rightarrow> chat_caught db
                 | Throws x \<Rightarrow> chat_caught db
                 | Fine \<Rightarrow>
                     (let matchingChats =
                            [c. (c, m) \<leftarrow> chat_members db, m = other, c \<in> set existingChats]
                      in case matchingChats of
                           [] \<Rightarrow> create_direct_chat fl newId now me other db
                         | first # rest \<Rightarrow>
                             (case chatFault fl of
                                Throws x \<Rightarrow> chat_caught db
                              | Fails e \<Rightarrow> create_direct_chat fl newId now me other db
                              | Fine \<Rightarrow>
                                  (case single [ch \<leftarrow> chats db. row_id ch = first \<and> \<not> is_group ch] of
                                     None \<Rightarrow> create_direct_chat fl newId now me other db
                                   | Some chatData \<Rightarrow>
                                       \<lparr>backend_after = db,
                                        pushed = Some (''/messages?chat='' @ row_id chatData),
                                        chat_console = []\<rparr>))))))"

text \<open>The effect runs \<open>createOrGetChat\<close> when \<open>initialUserId\<close> is given and is not the
  current user's id.\<close>

definition ChatList_effect ::
  "chat_faults \<Rightarrow> string \<Rightarrow> string \<Rightarrow> auth_user option \<Rightarrow> string option \<Rightarrow> backend
     \<Rightarrow> chat_list_run" where
  "ChatList_effect fl newId now user initialUserId db =
     (case user of
        None \<Rightarrow> \<lparr>backend_after = db, pushed = None, chat_console = []\<rparr>
      | Some u \<Rightarrow>
          (case initialUserId of
             None \<Rightarrow> \<lparr>backend_after = db, pushed = None, chat_console = []\<rparr>
           | Some other \<Rightarrow>
               if other \<noteq> [] \<and> other \<noteq> uid u
               then createOrGetChat fl newId now (uid u) other db
               else \<lparr>backend_after = db, pushed = None, chat_console = []\<rparr>))"

text \<open>A direct (non-group) chat \<open>c\<close> between \<open>a\<close> and \<open>b\<close> exists in the backend.\<close>

definition direct_chat_between :: "backend \<Rightarrow> string \<Rightarrow> string \<Rightarrow> string \<Rightarrow> bool" where
  "direct_chat_between db a b c =
     (list_ex (\<lambda>ch. row_id ch = c \<and> \<not> is_group ch) (chats db)
      \<and> (c, a) \<in> set (chat_members db) \<and> (c, b) \<in> set (chat_members db))"

section \<open>AuthProvider: session changes and profile provisioning\<close>

text \<open>
  The provider's state (\<open>user\<close>, \<open>session\<close> are written \<open>ctx_user\<close>, \<open>ctx_session\<close>;
  \<open>href\<close> is the last value assigned to \<open>window.location.href\<close>), the requests it
  issued and its console output. The replies of the three calls of
  \<open>createProfileIfNeeded\<close> are inputs, and so are the two values of
  \<open>Math.floor(Math.random() * 10000)\<close> and \<open>Math.floor(Math.random() * 1000)\<close>
  and the language's \<open>toLowerCase\<close>.
\<close>

datatype auth_event =
  INITIAL_SESSION | SIGNED_IN | SIGNED_OUT | TOKEN_REFRESHED | USER_UPDATED | PASSWORD_RECOVERY

record session =
  access_token :: string
  session_user :: auth_user

record auth_context =
  ctx_user :: "auth_user option"
  ctx_session :: "session option"
  isLoading :: bool
  href :: "string option"
  auth_issued :: "request list"
  auth_console :: "console_entry list"

record provisioning_replies =
  tableCheck :: "unit reply"
  profileCheck :: "string reply"
  profileInsert :: "unit reply"

text \<open>What a run of the helper did: the requests, the console lines, and the exception
  that left it, if any.\<close>

record provisioning =
  profile_issued :: "request list"
  profile_console :: "console_entry list"
  escaped :: "string option"

text \<open>A number in a template literal: its decimal digits.\<close>

definition digit :: "nat \<Rightarrow> nat" where
  "digit d = 48 + d"

fun decimal :: "nat \<Rightarrow> ustring" where
  "decimal n = (if n < 10 then [digit n] else decimal (n div 10) @ [digit (n mod 10)])"

declare decimal.simps [simp del]

text \<open>A string that is \<open>undefined\<close>, \<open>null\<close> or empty is falsy.\<close>

definition or_empty :: "'a list option \<Rightarrow> 'a list" where
  "or_empty v = (case v of None \<Rightarrow> [] | Some s \<Rightarrow> s)"

definition metadata_full_name :: "auth_user \<Rightarrow> ustring" where
  "metadata_full_name u = (case user_metadata u of None \<Rightarrow> [] | Some m \<Rightarrow> or_empty (full_name m))"

definition username_base :: "(ustring \<Rightarrow> ustring) \<Rightarrow> auth_user \<Rightarrow> nat \<Rightarrow> ustring" where
  "username_base toLowerCase u r10000 =
     (if metadata_full_name u \<noteq> []
      then toLowerCase (filter (\<lambda>c. \<not> is_space c) (metadata_full_name u))
      else if or_empty (email u) \<noteq> []
      then (case split 0x40 (or_empty (email u)) of [] \<Rightarrow> [] | local # rest \<Rightarrow> local)
      else js ''user'' @ decimal r10000)"

definition generate_username :: "(ustring \<Rightarrow> ustring) \<Rightarrow> auth_user \<Rightarrow> nat \<Rightarrow> nat \<Rightarrow> ustring" where
  "generate_username toLowerCase u r10000 r1000 =
     username_base toLowerCase u r10000 @ decimal r1000"

definition missing_table_text :: string where
  "missing_table_text =
     ''relation '' @ [CHR 0x22] @ ''public.profiles'' @ [CHR 0x22] @ '' does not exist''"

definition profile_avatar :: "auth_user \<Rightarrow> string option" where
  "profile_avatar u =
     (case user_metadata u of
        None \<Rightarrow> None
      | Some m \<Rightarrow> if or_empty (meta_avatar_url m) \<noteq> [] then meta_avatar_url m else None)"

definition createProfile_try ::
  "(ustring \<Rightarrow> ustring) \<Rightarrow> provisioning_replies \<Rightarrow> nat \<Rightarrow> nat \<Rightarrow> auth_user \<Rightarrow> provisioning" where
  "createProfile_try toLowerCase rs r10000 r1000 u =
     (let t = [ProfilesTableCheck];
          s = t @ [SelectProfile (uid u)];
          i = s @ [InsertProfile (uid u) (generate_username toLowerCase u r10000 r1000)
                     (profile_avatar u)]
      in case tableCheck rs of
           Thrown x \<Rightarrow> \<lparr>profile_issued = t, profile_console = [], escaped = Some x\<rparr>
         | tc \<Rightarrow>
             if (case tc of Failed e \<Rightarrow> includes_str (message e) missing_table_text | _ \<Rightarrow> False)
             then \<lparr>profile_issued = t,
                   profile_console =
                     [(WARN, ''Profiles table does not exist. Please run the SQL setup script.'')],
                   escaped = None\<rparr>
             else
               (case profileCheck rs of
                  Thrown x \<Rightarrow> \<lparr>profile_issued = s, profile_console = [], escaped = Some x\<rparr>
                | Ok existingProfile \<Rightarrow>
                    \<lparr>profile_issued = s, profile_console = [], escaped = None\<rparr>
                | Failed checkError \<Rightarrow>
                    if code checkError \<noteq> ''PGRST116''
                    then \<lparr>profile_issued = s,
                          profile_console = [(ERROR, ''Error checking for existing profile:'')],
                          escaped = None\<rparr>
                    else
                      (case profileInsert rs of
                         Thrown x \<Rightarrow> \<lparr>profile_issued = i, profile_console = [], escaped = Some x\<rparr>
                       | Failed insertError \<Rightarrow>
                           \<lparr>profile_issued = i,
                            profile_console = [(ERROR, ''Error creating profile:'')],
                            escaped = None\<rparr>
                       | Ok v \<Rightarrow> \<lparr>profile_issued = i, profile_console = [], escaped = None\<rparr>)))"

text \<open>The helper's own \<open>catch\<close> logs whatever was thrown and does not rethrow.\<close>

definition createProfileIfNeeded ::
  "(ustring \<Rightarrow> ustring) \<Rightarrow> provisioning_replies \<Rightarrow> nat \<Rightarrow> nat \<Rightarrow> auth_user \<Rightarrow> provisioning" where
  "createProfileIfNeeded toLowerCase rs r10000 r1000 u =
     (let p = createProfile_try toLowerCase rs r10000 r1000 u
      in case escaped p of
           None \<Rightarrow> p
         | Some x \<Rightarrow>
             p\<lparr>profile_console := profile_console p @ [(ERROR, ''Error in createProfileIfNeeded:'')],
               escaped := None\<rparr>)"

definition onAuthStateChange ::
  "(ustring \<Rightarrow> ustring) \<Rightarrow> provisioning_replies \<Rightarrow> nat \<Rightarrow> nat \<Rightarrow> auth_event \<Rightarrow> session option
     \<Rightarrow> auth_context \<Rightarrow> auth_context" where
  "onAuthStateChange toLowerCase rs r10000 r1000 ev sess a =
     (let a1 = a\<lparr>auth_console := auth_console a @ [(LOG, ''Auth state changed:'')],
                 ctx_session := sess, ctx_user := map_option session_user sess\<rparr>;
          a2 = (case sess of
                  None \<Rightarrow> a1
                | Some s \<Rightarrow>
                    if ev = SIGNED_IN \<or> ev = USER_UPDATED
                    then
                      (let p = createProfileIfNeeded toLowerCase rs r10000 r1000 (session_user s);
                           a' = a1\<lparr>auth_issued := auth_issued a1 @ profile_issued p,
                                   auth_console := auth_console a1 @ profile_console p
                                     @ (case escaped p of
                                          None \<Rightarrow> []
                                        | Some x \<Rightarrow>
                                            [(WARN, ''Could not create profile, but continuing auth flow:'')])\<rparr>
                       in if ev = SIGNED_IN
                          then a'\<lparr>auth_console := auth_console a' @ [(LOG, ''Redirecting to home after sign in'')],
                                 href := Some ''/''\<rparr>
                          else a')
                    else a1);
          a3 = (if ev = SIGNED_OUT
                then a2\<lparr>auth_console := auth_console a2 @ [(LOG, ''Redirecting to login after sign out'')],
                       href := Some ''/login''\<rparr>
                else a2)
      in a3\<lparr>isLoading := False\<rparr>)"

section \<open>Sample data\<close>

definition alice :: auth_user where
  "alice = \<lparr>uid = ''alice'', email = Some (js ''alice@example.com''),
     user_metadata = Some \<lparr>full_name = Some (js ''Alice Doe''), meta_avatar_url = None\<rparr>\<rparr>"

definition bob :: auth_user where
  "bob = \<lparr>uid = ''bob'', email = Some (js ''bob@example.com''), user_metadata = None\<rparr>"

definition post_by :: "string \<Rightarrow> string \<Rightarrow> int \<Rightarrow> bool \<Rightarrow> post" where
  "post_by pid author n flag =
     \<lparr>row_id = pid, created_at = ''2024-01-01T00:00:00Z'', content = js ''hello'',
      user_id = author, profiles = \<lparr>username = js author, avatar_url = None\<rparr>, image_url = None,
      likes_count = n, comments_count = 0, user_has_liked = flag\<rparr>"

definition feed_of :: "post list \<Rightarrow> home" where
  "feed_of ps =
     \<lparr>posts = ps, loading = False, error = None, form_content = [], image = None,
      imagePreview = None, isSubmitting = False, form_error = None, inflight = [],
      issued = [], console = []\<rparr>"

definition network_error :: gw_error where
  "network_error = \<lparr>message = ''NetworkError'', code = []\<rparr>"


definition comment_by :: "string \<Rightarrow> string \<Rightarrow> row" where
  "comment_by cid author =
     \<lparr>row_id = cid, created_at = ''2024-01-01T00:00:00Z'', content = js ''nice'',
      user_id = author, profiles = \<lparr>username = js author, avatar_url = None\<rparr>\<rparr>"


text \<open>A lower-casing of the ASCII letters, which is what \<open>toLowerCase\<close> does on ASCII
  text; it stands for \<open>toLowerCase\<close> in the examples.\<close>

definition ascii_lower :: "ustring \<Rightarrow> ustring" where
  "ascii_lower s = map (\<lambda>c. if 65 \<le> c \<and> c \<le> 90 then c + 32 else c) s"

definition section_of :: "ustring \<Rightarrow> comment_section" where
  "section_of draft =
     \<lparr>comments = [], newComment = draft, comments_loading = False, submitting = False,
      comment_issued = [], comment_console = []\<rparr>"


definition no_faults :: chat_faults where
  "no_faults = \<lparr>existingChatsFault = Fine, matchingChatsFault = Fine, chatFault = Fine,
     newChatFault = Fine, membersFault = Fine\<rparr>"

text \<open>Alice and Bob share the group chat \<open>G\<close> and have the direct chat \<open>D\<close>.\<close>

definition shared_group_db :: backend where
  "shared_group_db =
     \<lparr>chats =
        [\<lparr>row_id = ''G'', created_at = ''2024-01-01'', chat_name = Some ''team'', is_group = True,
          created_by = ''carol''\<rparr>,
         \<lparr>row_id = ''D'', created_at = ''2024-01-02'', chat_name = None, is_group = False,
          created_by = ''alice''\<rparr>],
      chat_members =
        [(''G'', ''alice''), (''G'', ''bob''), (''G'', ''carol''), (''D'', ''alice''), (''D'', ''bob'')]\<rparr>"

definition signed_out :: auth_context where
  "signed_out = \<lparr>ctx_user = None, ctx_session = None, isLoading = True, href = None,
     auth_issued = [], auth_console = []\<rparr>"

definition all_thrown :: provisioning_replies where
  "all_thrown = \<lparr>tableCheck = Thrown ''fetch failed'', profileCheck = Thrown ''fetch failed'',
     profileInsert = Thrown ''fetch failed''\<rparr>"

definition insert_refused :: provisioning_replies where
  "insert_refused = \<lparr>tableCheck = Ok (),
     profileCheck = Failed \<lparr>message = ''no rows'', code = ''PGRST116''\<rparr>,
     profileInsert = Failed \<lparr>message = ''duplicate key'', code = ''23505''\<rparr>\<rparr>"

definition provisioned :: provisioning_replies where
  "provisioned = \<lparr>tableCheck = Ok (),
     profileCheck = Failed \<lparr>message = ''no rows'', code = ''PGRST116''\<rparr>,
     profileInsert = Ok ()\<rparr>"


section \<open>Theorems: Navigation\<close>

lemma deliver_messages_count:
  "deliver_messages viewer evs prev = prev + length (filter (counts_as_unread viewer) evs)"
  by (induction evs arbitrary: prev) (simp_all add: messageSubscription_def)

text \<open>
  C10: the unread-messages counter goes up by one on every message insert event whose
  author differs from the current user, whether or not the current user is a member of
  the message's chat; over a run of events it grows by the number of such events.
\<close>

theorem unread_badge_counts_foreign_messages:
  "(payload_new ev = Some m \<and> user_id m \<noteq> viewer \<and> \<not> member_of members viewer (chat_id m)
      \<longrightarrow> messageSubscription viewer ev prev = prev + 1)
   \<and> (payload_new ev = Some m \<and> user_id m \<noteq> viewer
      \<longrightarrow> messageSubscription viewer ev prev = prev + 1)
   \<and> deliver_messages viewer evs prev = prev + length (filter (counts_as_unread viewer) evs)"
  by (simp add: messageSubscription_def counts_as_unread_def deliver_messages_count)

theorem unread_badge_counts_foreign_messages_witness:
  "payload_new \<lparr>payload_new = Some \<lparr>row_id = ''m3'', created_at = ''t3'', content = js ''hi'',
        user_id = ''bob'', chat_id = ''c9''\<rparr>\<rparr>
     = Some \<lparr>row_id = ''m3'', created_at = ''t3'', content = js ''hi'', user_id = ''bob'', chat_id = ''c9''\<rparr>
   \<and> ''bob'' \<noteq> ''alice''
   \<and> \<not> member_of [(''c1'', ''alice''), (''c9'', ''bob'')] ''alice'' ''c9''
   \<and> messageSubscription ''alice''
        \<lparr>payload_new = Some \<lparr>row_id = ''m3'', created_at = ''t3'', content = js ''hi'',
           user_id = ''bob'', chat_id = ''c9''\<rparr>\<rparr> 4 = 5"
  using unread_badge_counts_foreign_messages
    [of "\<lparr>payload_new = Some \<lparr>row_id = ''m3'', created_at = ''t3'', content = js ''hi'',
           user_id = ''bob'', chat_id = ''c9''\<rparr>\<rparr>"
        "\<lparr>row_id = ''m3'', created_at = ''t3'', content = js ''hi'', user_id = ''bob'', chat_id = ''c9''\<rparr>"
        "''alice''" "[(''c1'', ''alice''), (''c9'', ''bob'')]" 4 "[]"]
  by (simp add: member_of_def)

section \<open>Theorems: the like action\<close>

lemma findIndex_None: "findIndex p xs = None \<longleftrightarrow> (\<forall>x \<in> set xs. \<not> p x)"
  by (induction xs) auto

lemma findIndex_Some:
  "findIndex p xs = Some i \<Longrightarrow> i < length xs \<and> p (xs ! i) \<and> (\<forall>j < i. \<not> p (xs ! j))"
proof (induction xs arbitrary: i)
  case Nil
  then show ?case by simp
next
  case (Cons x xs)
  show ?case
  proof (cases "p x")
    case True
    with Cons.prems show ?thesis by simp
  next
    case False
    with Cons.prems obtain j where j: "findIndex p xs = Some j" "i = Suc j"
      by auto
    from Cons.IH [OF j(1)] False j(2) show ?thesis
      by (auto simp: less_Suc_eq_0_disj)
  qed
qed

text \<open>
  C9: the like action on a post id that is not in the feed cache is a no-op: the handler
  returns before issuing any request, nothing is left in flight, and the page state (so
  every cached post) is unchanged.
\<close>

theorem like_unknown_post_noop:
  assumes "pid \<notin> row_id ` set (posts w)"
  shows "handlePostLike gw user pid w = w \<and> tap user pid w = w
         \<and> handlePostLike_start user (posts w) pid = None"
proof -
  have "findIndex (\<lambda>p. row_id p = pid) (posts w) = None"
    using assms by (auto simp: findIndex_None)
  then show ?thesis
    by (simp add: handlePostLike_def tap_def handlePostLike_start_def split: option.splits)
qed


theorem like_unknown_post_noop_witness:
  "''P2'' \<notin> row_id ` set (posts (feed_of [post_by ''P1'' ''bob'' 3 False]))
   \<and> handlePostLike (\<lambda>r. Ok ()) (Some alice) ''P2'' (feed_of [post_by ''P1'' ''bob'' 3 False])
       = feed_of [post_by ''P1'' ''bob'' 3 False]
   \<and> issued (handlePostLike (\<lambda>r. Ok ()) (Some alice) ''P2'' (feed_of [post_by ''P1'' ''bob'' 3 False])) = []"
proof -
  have h: "''P2'' \<notin> row_id ` set (posts (feed_of [post_by ''P1'' ''bob'' 3 False]))"
    by (simp add: feed_of_def post_by_def)
  from like_unknown_post_noop [OF h, of "\<lambda>r. Ok ()" "Some alice"] h show ?thesis
    by (simp add: feed_of_def)
qed

subsection \<open>Toggles of one post\<close>

lemma findIndex_update:
  "findIndex p xs = Some i \<Longrightarrow> p y \<Longrightarrow> findIndex p (xs[i := y]) = Some i"
proof (induction xs arbitrary: i)
  case Nil
  then show ?case by simp
next
  case (Cons x xs)
  then show ?case
    by (cases "p x") auto
qed

lemma toggle_effect:
  assumes "findIndex (\<lambda>p. row_id p = pid) (posts w) = Some i"
  shows "posts (toggle (Some u) pid w) = (posts w)[i := flip (posts w ! i)]"
    and "inflight (toggle (Some u) pid w) = inflight w"
    and "error (toggle (Some u) pid w) = error w"
    and "length (filter is_like_mutation (issued (toggle (Some u) pid w)))
         = Suc (length (filter is_like_mutation (issued w)))"
  using assms
  by (auto simp: toggle_def handlePostLike_def handlePostLike_start_def Let_def finish_def
      issue_def liked_def unliked_def flip_def is_like_mutation_def)

lemma flip_row_id: "row_id (flip p) = row_id p"
  by (simp add: flip_def)

lemma toggles_effect:
  assumes "findIndex (\<lambda>p. row_id p = pid) (posts w) = Some i"
  shows "posts (toggles n (Some u) pid w) = (posts w)[i := (flip ^^ n) (posts w ! i)]
         \<and> inflight (toggles n (Some u) pid w) = inflight w
         \<and> error (toggles n (Some u) pid w) = error w
         \<and> length (filter is_like_mutation (issued (toggles n (Some u) pid w)))
           = length (filter is_like_mutation (issued w)) + n"
  using assms
proof (induction n arbitrary: w)
  case 0
  then show ?case by simp
next
  case (Suc n)
  let ?w = "toggle (Some u) pid w"
  from findIndex_Some [OF Suc.prems] have i: "i < length (posts w)" "row_id (posts w ! i) = pid"
    by simp_all
  have p: "posts ?w = (posts w)[i := flip (posts w ! i)]"
    by (rule toggle_effect(1) [OF Suc.prems])
  have "findIndex (\<lambda>p. row_id p = pid) (posts ?w) = Some i"
    unfolding p using Suc.prems i by (intro findIndex_update) (simp_all add: flip_row_id)
  from Suc.IH [OF this] show ?case
    using i toggle_effect(2,3,4) [OF Suc.prems, of u]
    by (simp add: p funpow_swap1)
qed

lemma flip_funpow:
  "user_has_liked ((flip ^^ n) p) = (user_has_liked p \<noteq> odd n)
   \<and> likes_count ((flip ^^ n) p)
       = likes_count p + (if even n then 0 else if user_has_liked p then - 1 else 1)"
  by (induction n) (auto simp: flip_def)


text \<open>With nothing else in flight, a press followed by the successful replies of the
  requests the call awaits (one, or two when a notification is sent) is one toggle.\<close>

lemma toggle_as_events:
  assumes "inflight w = []"
  shows "\<exists>k \<le> 2. feed_run user (Tap pid # replicate k (Settle 0 (Ok ()))) w = toggle user pid w"
proof (cases "handlePostLike_start user (posts w) pid")
  case None
  then have "feed_run user (Tap pid # replicate 0 (Settle 0 (Ok ()))) w = toggle user pid w"
    by (simp add: tap_def toggle_def handlePostLike_def)
  then show ?thesis by blast
next
  case (Some a)
  obtain r p where a: "a = (r, p)" by (cases a)
  show ?thesis
  proof (cases "handlePostLike_resume p (Ok ())")
    case (Finished res out)
    with Some a assms
    have "feed_run user (Tap pid # replicate 1 (Settle 0 (Ok ()))) w = toggle user pid w"
      by (cases w) (simp add: tap_def settle_def toggle_def handlePostLike_def finish_def issue_def)
    then show ?thesis by (intro exI [of _ 1]) simp
  next
    case (Suspended r' p')
    then obtain ps where p': "p' = AwaitNotify ps"
      by (cases p) (auto split: if_splits)
    with Some a assms Suspended
    have "feed_run user (Tap pid # replicate 2 (Settle 0 (Ok ()))) w = toggle user pid w"
      by (cases w)
         (simp add: tap_def settle_def toggle_def handlePostLike_def finish_def issue_def
          numeral_2_eq_2)
    then show ?thesis by (intro exI [of _ 2]) simp
  qed
qed

text \<open>Presses on one post and settlements, interleaved in any way, keep the cache at
  its initial value or at that value with the post toggled once.\<close>

lemma flip_flip: "flip (flip p) = p"
  by (simp add: flip_def)

lemma flipped_twice:
  assumes "i < length P" "S = P \<or> S = P[i := flip (P ! i)]"
  shows "S[i := flip (S ! i)] = P \<or> S[i := flip (S ! i)] = P[i := flip (P ! i)]"
  using assms by (auto simp: flip_flip)

lemma unliked_flip:
  "user_has_liked (target c) \<Longrightarrow> unliked c = (newPosts c)[postIndex c := flip (target c)]"
  by (simp add: unliked_def flip_def)

lemma liked_flip:
  "\<not> user_has_liked (target c) \<Longrightarrow> liked c = (newPosts c)[postIndex c := flip (target c)]"
  by (simp add: liked_def flip_def)

lemma tap_inv:
  assumes inv: "like_inv P i w" and f: "findIndex (\<lambda>p. row_id p = pid) P = Some i"
  shows "like_inv P i (tap user pid w)"
proof (cases user)
  case None
  with inv show ?thesis by (simp add: tap_def handlePostLike_start_def)
next
  case (Some u)
  from findIndex_Some [OF f] have i: "i < length P" "row_id (P ! i) = pid" by simp_all
  from inv have S: "posts w = P \<or> posts w = P[i := flip (P ! i)]"
    by (simp add: like_inv_def)
  have fS: "findIndex (\<lambda>p. row_id p = pid) (posts w) = Some i"
    using S f i by (auto intro!: findIndex_update simp: flip_row_id)
  show ?thesis
    using inv S fS Some
    by (auto simp: like_inv_def tap_def handlePostLike_start_def Let_def issue_def)
qed

lemma list_all_remove: "list_all Q xs \<Longrightarrow> list_all Q (take k xs @ drop (Suc k) xs)"
  by (auto simp: list_all_iff dest: in_set_takeD in_set_dropD)

lemma list_all_update: "list_all Q xs \<Longrightarrow> Q y \<Longrightarrow> list_all Q (xs[k := y])"
  by (auto simp: list_all_iff dest: set_update_subset_insert [THEN subsetD])

lemma settle_inv:
  assumes inv: "like_inv P i w" and i: "i < length P"
  shows "like_inv P i (settle k rep w)"
proof (cases "length (inflight w) \<le> k")
  case True
  with inv show ?thesis by (simp add: settle_def)
next
  case False
  let ?p = "inflight w ! k"
  from inv have S: "posts w = P \<or> posts w = P[i := flip (P ! i)]"
    and all: "list_all (pending_ok P i) (inflight w)"
    by (simp_all add: like_inv_def)
  from all False have ok: "pending_ok P i ?p"
    by (simp add: list_all_length)
  note rm = list_all_remove [OF all, of k]
  show ?thesis
  proof (cases ?p)
    case (AwaitDelete c)
    with ok have c: "newPosts c = P \<or> newPosts c = P[i := flip (P ! i)]" "postIndex c = i"
      "target c = newPosts c ! i" "user_has_liked (target c)"
      by auto
    have "unliked c = P \<or> unliked c = P[i := flip (P ! i)]"
      using flipped_twice [OF i c(1)] c by (simp add: unliked_flip)
    with False AwaitDelete S rm show ?thesis
      by (cases rep) (auto simp: settle_def like_inv_def finish_def)
  next
    case (AwaitInsert c)
    with ok have c: "newPosts c = P \<or> newPosts c = P[i := flip (P ! i)]" "postIndex c = i"
      "target c = newPosts c ! i" "\<not> user_has_liked (target c)"
      by auto
    have l: "liked c = P \<or> liked c = P[i := flip (P ! i)]"
      using flipped_twice [OF i c(1)] c by (simp add: liked_flip)
    then have "pending_ok P i (AwaitNotify (liked c))" by simp
    from list_all_update [OF all this, of k] False AwaitInsert S rm l show ?thesis
      by (cases rep) (auto simp: settle_def like_inv_def finish_def issue_def)
  next
    case (AwaitNotify ps)
    with ok have "ps = P \<or> ps = P[i := flip (P ! i)]" by simp
    with False AwaitNotify S rm show ?thesis
      by (cases rep) (auto simp: settle_def like_inv_def finish_def)
  qed
qed

lemma run_inv:
  assumes "like_inv P i w" "findIndex (\<lambda>p. row_id p = pid) P = Some i"
    "\<forall>e \<in> set es. on_post pid e"
  shows "like_inv P i (feed_run user es w)"
  using assms
proof (induction es arbitrary: w)
  case Nil
  then show ?case by simp
next
  case (Cons e es)
  from findIndex_Some [OF Cons.prems(2)] have i: "i < length P" by simp
  have "like_inv P i (feed_step user e w)"
  proof (cases e)
    case (Tap q)
    with Cons.prems(3) have "q = pid" by (simp add: on_post_def)
    with Tap tap_inv [OF Cons.prems(1,2)] show ?thesis by simp
  next
    case (Settle k rep)
    with settle_inv [OF Cons.prems(1) i] show ?thesis by simp
  qed
  with Cons show ?case by simp
qed

lemma never_more_than_one_toggle:
  assumes "inflight w = []" "findIndex (\<lambda>p. row_id p = pid) (posts w) = Some i"
    "\<forall>e \<in> set es. on_post pid e"
  shows "posts (feed_run user es w) = posts w
         \<or> posts (feed_run user es w) = (posts w)[i := flip (posts w ! i)]"
proof -
  from assms(1) have "like_inv (posts w) i w" by (simp add: like_inv_def)
  from run_inv [OF this assms(2,3)] show ?thesis by (simp add: like_inv_def)
qed

lemma tap_not_held_back:
  assumes "findIndex (\<lambda>p. row_id p = pid) (posts w) = Some i"
  shows "\<exists>r. is_like_mutation r \<and> issued (tap (Some u) pid w) = issued w @ [r]
           \<and> length (inflight (tap (Some u) pid w)) = Suc (length (inflight w))
           \<and> posts (tap (Some u) pid w) = posts w"
  using assms
  by (auto simp: tap_def handlePostLike_start_def Let_def issue_def is_like_mutation_def)

text \<open>
  C1 (as amended): for toggle calls on one cached post by the same viewer,
  (1) when each call completes, with every request it awaits succeeding, before the next
  one is pressed, then after \<open>n\<close> toggles the cached flag is the initial flag switched
  \<open>n\<close> times (the parity of the completed toggles), the cached count reflects each toggle
  once (moved by one for an odd \<open>n\<close>, back at its initial value for an even \<open>n\<close>),
  every other cached post is as before, exactly \<open>n\<close> like mutations were issued and none
  is left in flight;
  (2) a press is never queued or rejected: whatever is in flight, it issues its request at
  once, starts a further call, and leaves the cache as it is until a reply arrives;
  (3) however presses on that post and settlements interleave, starting with nothing in
  flight, the cache is at every point its initial value or that value with the post
  toggled once, so the cached count never moves by more than one: two concurrent like
  calls do not double-increment it.
\<close>

theorem toggles_on_one_post:
  assumes "findIndex (\<lambda>p. row_id p = pid) (posts w) = Some i"
  shows "user_has_liked (posts (toggles n (Some u) pid w) ! i)
           = (user_has_liked (posts w ! i) \<noteq> odd n)
         \<and> likes_count (posts (toggles n (Some u) pid w) ! i)
           = likes_count (posts w ! i)
             + (if even n then 0 else if user_has_liked (posts w ! i) then - 1 else 1)
         \<and> length (posts (toggles n (Some u) pid w)) = length (posts w)
         \<and> (\<forall>j. j \<noteq> i \<longrightarrow> posts (toggles n (Some u) pid w) ! j = posts w ! j)
         \<and> length (filter is_like_mutation (issued (toggles n (Some u) pid w)))
           = length (filter is_like_mutation (issued w)) + n
         \<and> inflight (toggles n (Some u) pid w) = inflight w
         \<and> (\<exists>r. is_like_mutation r \<and> issued (tap (Some u) pid w) = issued w @ [r]
              \<and> length (inflight (tap (Some u) pid w)) = Suc (length (inflight w))
              \<and> posts (tap (Some u) pid w) = posts w)
         \<and> (inflight w = [] \<and> (\<forall>e \<in> set es. on_post pid e)
             \<longrightarrow> (posts (feed_run user es w) = posts w
                  \<or> posts (feed_run user es w) = (posts w)[i := flip (posts w ! i)])
                \<and> (likes_count (posts (feed_run user es w) ! i) = likes_count (posts w ! i)
                  \<or> likes_count (posts (feed_run user es w) ! i)
                    = likes_count (posts w ! i) + (if user_has_liked (posts w ! i) then - 1 else 1)))"
proof -
  from findIndex_Some [OF assms] have i: "i < length (posts w)"
    by simp
  note e = toggles_effect [OF assms, of n u]
  from e have p: "posts (toggles n (Some u) pid w) = (posts w)[i := (flip ^^ n) (posts w ! i)]"
    by simp
  have seq: "user_has_liked (posts (toggles n (Some u) pid w) ! i)
           = (user_has_liked (posts w ! i) \<noteq> odd n)
         \<and> likes_count (posts (toggles n (Some u) pid w) ! i)
           = likes_count (posts w ! i)
             + (if even n then 0 else if user_has_liked (posts w ! i) then - 1 else 1)
         \<and> length (posts (toggles n (Some u) pid w)) = length (posts w)
         \<and> (\<forall>j. j \<noteq> i \<longrightarrow> posts (toggles n (Some u) pid w) ! j = posts w ! j)
         \<and> length (filter is_like_mutation (issued (toggles n (Some u) pid w)))
           = length (filter is_like_mutation (issued w)) + n
         \<and> inflight (toggles n (Some u) pid w) = inflight w"
    unfolding p using i e flip_funpow [of n "posts w ! i"] by simp
  have once: "(posts (feed_run user es w) = posts w
                  \<or> posts (feed_run user es w) = (posts w)[i := flip (posts w ! i)])
                \<and> (likes_count (posts (feed_run user es w) ! i) = likes_count (posts w ! i)
                  \<or> likes_count (posts (feed_run user es w) ! i)
                    = likes_count (posts w ! i) + (if user_has_liked (posts w ! i) then - 1 else 1))"
    if "inflight w = [] \<and> (\<forall>e \<in> set es. on_post pid e)"
  proof -
    from that never_more_than_one_toggle [OF _ assms, of es user]
    have d: "posts (feed_run user es w) = posts w
         \<or> posts (feed_run user es w) = (posts w)[i := flip (posts w ! i)]"
      by blast
    then show ?thesis
      using i by (auto simp: flip_def)
  qed
  from seq tap_not_held_back [OF assms, of u] once show ?thesis
    by blast
qed

theorem toggles_on_one_post_witness:
  "findIndex (\<lambda>p. row_id p = ''P1'') (posts (feed_of [post_by ''P0'' ''bob'' 7 True, post_by ''P1'' ''bob'' 0 False]))
     = Some 1
   \<and> user_has_liked (posts (toggles 3 (Some alice) ''P1''
        (feed_of [post_by ''P0'' ''bob'' 7 True, post_by ''P1'' ''bob'' 0 False])) ! 1) = True
   \<and> likes_count (posts (toggles 3 (Some alice) ''P1''
        (feed_of [post_by ''P0'' ''bob'' 7 True, post_by ''P1'' ''bob'' 0 False])) ! 1) = 1
   \<and> length (filter is_like_mutation (issued (toggles 3 (Some alice) ''P1''
        (feed_of [post_by ''P0'' ''bob'' 7 True, post_by ''P1'' ''bob'' 0 False])))) = 3
   \<and> likes_count (posts (feed_run (Some alice)
        [Tap ''P1'', Tap ''P1'', Settle 0 (Ok ()), Settle 1 (Ok ()), Settle 0 (Ok ()), Settle 0 (Ok ())]
        (feed_of [post_by ''P0'' ''bob'' 7 True, post_by ''P1'' ''bob'' 0 False])) ! 1) = 1
   \<and> inflight (feed_run (Some alice)
        [Tap ''P1'', Tap ''P1'', Settle 0 (Ok ()), Settle 1 (Ok ()), Settle 0 (Ok ()), Settle 0 (Ok ())]
        (feed_of [post_by ''P0'' ''bob'' 7 True, post_by ''P1'' ''bob'' 0 False])) = []"
proof -
  let ?w = "feed_of [post_by ''P0'' ''bob'' 7 True, post_by ''P1'' ''bob'' 0 False]"
  let ?es = "[Tap ''P1'', Tap ''P1'', Settle 0 (Ok ()), Settle 1 (Ok ()), Settle 0 (Ok ()),
      Settle 0 (Ok ())]"
  have h: "findIndex (\<lambda>p. row_id p = ''P1'') (posts ?w) = Some 1"
    by (simp add: feed_of_def post_by_def)
  have h2: "inflight ?w = [] \<and> (\<forall>e \<in> set ?es. on_post ''P1'' e)"
    by (simp add: feed_of_def on_post_def)
  have run: "likes_count (posts (feed_run (Some alice) ?es ?w) ! 1) = 1
      \<and> inflight (feed_run (Some alice) ?es ?w) = []"
    by (simp add: feed_of_def post_by_def tap_def settle_def handlePostLike_start_def issue_def
        finish_def liked_def alice_def)
  from toggles_on_one_post [OF h, of 3 alice ?es "Some alice"] h h2 run show ?thesis
    by (simp add: feed_of_def post_by_def)
qed

text \<open>
  The claim as stated fails. The viewer has liked \<open>P1\<close> (count 1) and presses the button
  twice before any reply arrives: the second press is neither queued nor rejected, both
  delete requests are issued at once and both calls are in flight. When both replies
  arrive, two toggles have completed, yet the cached flag is not the initial flag (it is
  \<open>False\<close>, as after one toggle).
\<close>

theorem overlapping_toggles_counterexample:
  "issued (feed_run (Some alice) [Tap ''P1'', Tap ''P1''] (feed_of [post_by ''P1'' ''bob'' 1 True]))
     = [DeleteLike ''P1'' ''alice'', DeleteLike ''P1'' ''alice'']
   \<and> length (inflight (feed_run (Some alice) [Tap ''P1'', Tap ''P1'']
        (feed_of [post_by ''P1'' ''bob'' 1 True]))) = 2
   \<and> inflight (feed_run (Some alice) [Tap ''P1'', Tap ''P1'', Settle 0 (Ok ()), Settle 0 (Ok ())]
        (feed_of [post_by ''P1'' ''bob'' 1 True])) = []
   \<and> user_has_liked (hd (posts (feed_run (Some alice)
        [Tap ''P1'', Tap ''P1'', Settle 0 (Ok ()), Settle 0 (Ok ())]
        (feed_of [post_by ''P1'' ''bob'' 1 True]))))
     \<noteq> (user_has_liked (hd (posts (feed_of [post_by ''P1'' ''bob'' 1 True]))) \<noteq> odd (2::nat))"
  by (simp add: feed_of_def post_by_def tap_def settle_def handlePostLike_start_def issue_def
      finish_def unliked_def alice_def)

subsection \<open>A like or unlike whose request fails\<close>

text \<open>
  C3 (as amended): when the like or unlike request of a cached post fails (an error
  reply or a rejected promise), the cached posts keep their prior values (the handler
  changes the cache only after a successful reply, so there is nothing to roll back), no
  further request is issued, and the feed's visible \<open>error\<close> state is left as it
  was; an error reply is written to the console, and that is its only trace.
\<close>

theorem failed_like_leaves_cache:
  assumes "pid \<in> row_id ` set (posts w)"
    and "\<forall>r. is_like_mutation r \<longrightarrow> gw r = Failed e \<or> gw r = Thrown x"
  shows "posts (handlePostLike gw (Some u) pid w) = posts w
         \<and> error (handlePostLike gw (Some u) pid w) = error w
         \<and> loading (handlePostLike gw (Some u) pid w) = loading w
         \<and> (\<exists>r. is_like_mutation r \<and> issued (handlePostLike gw (Some u) pid w) = issued w @ [r])
         \<and> ((\<forall>r. is_like_mutation r \<longrightarrow> gw r = Failed e)
              \<longrightarrow> (\<exists>l. console (handlePostLike gw (Some u) pid w) = console w @ [(ERROR, l)]))"
proof -
  from assms(1) obtain i where i: "findIndex (\<lambda>p. row_id p = pid) (posts w) = Some i"
    by (cases "findIndex (\<lambda>p. row_id p = pid) (posts w)") (auto simp: findIndex_None)
  have d: "gw (DeleteLike pid (uid u)) = Failed e \<or> gw (DeleteLike pid (uid u)) = Thrown x"
    and l: "gw (InsertLike pid (uid u)) = Failed e \<or> gw (InsertLike pid (uid u)) = Thrown x"
    using assms(2) by (simp_all add: is_like_mutation_def)
  have shape: "handlePostLike gw (Some u) pid w
      = (let r = (if user_has_liked (posts w ! i) then DeleteLike pid (uid u)
                  else InsertLike pid (uid u))
         in finish None
              (case gw r of Failed e' \<Rightarrow>
                 [(ERROR, if user_has_liked (posts w ! i) then ''Error unliking post:''
                          else ''Error liking post:'')]
               | _ \<Rightarrow> [])
              (issue r w))"
    using i d l
    by (auto simp: handlePostLike_def handlePostLike_start_def Let_def)
  have once: "\<exists>r. is_like_mutation r \<and> issued (handlePostLike gw (Some u) pid w) = issued w @ [r]"
    unfolding shape by (simp add: Let_def finish_def issue_def is_like_mutation_def)
  have logged: "\<exists>l. console (handlePostLike gw (Some u) pid w) = console w @ [(ERROR, l)]"
    if "\<forall>r. is_like_mutation r \<longrightarrow> gw r = Failed e"
  proof -
    from that have "gw (DeleteLike pid (uid u)) = Failed e" "gw (InsertLike pid (uid u)) = Failed e"
      by (simp_all add: is_like_mutation_def)
    then show ?thesis
      unfolding shape by (simp add: Let_def finish_def issue_def)
  qed
  have same: "posts (handlePostLike gw (Some u) pid w) = posts w"
    "error (handlePostLike gw (Some u) pid w) = error w"
    "loading (handlePostLike gw (Some u) pid w) = loading w"
    unfolding shape by (simp_all add: Let_def finish_def issue_def)
  from same once logged show ?thesis
    by blast
qed

theorem failed_like_leaves_cache_witness:
  "''P1'' \<in> row_id ` set (posts (feed_of [post_by ''P1'' ''bob'' 0 False]))
   \<and> posts (handlePostLike (\<lambda>r. Failed network_error) (Some alice) ''P1''
        (feed_of [post_by ''P1'' ''bob'' 0 False])) = [post_by ''P1'' ''bob'' 0 False]
   \<and> error (handlePostLike (\<lambda>r. Failed network_error) (Some alice) ''P1''
        (feed_of [post_by ''P1'' ''bob'' 0 False])) = None"
proof -
  have h1: "''P1'' \<in> row_id ` set (posts (feed_of [post_by ''P1'' ''bob'' 0 False]))"
    by (simp add: feed_of_def post_by_def)
  have h2: "\<forall>r. is_like_mutation r \<longrightarrow>
      (\<lambda>r. Failed network_error :: unit reply) r = Failed network_error
      \<or> (\<lambda>r. Failed network_error :: unit reply) r = Thrown []"
    by simp
  from failed_like_leaves_cache [OF h1 h2, of alice] h1 show ?thesis
    by (simp add: feed_of_def)
qed

text \<open>
  The claim as stated fails: liking \<open>P1\<close> (count 0, not liked) with the request failing
  on a network error leaves the feed's visible error state empty; the only trace is a
  console line.
\<close>

theorem failed_like_no_visible_error_counterexample:
  "error (handlePostLike (\<lambda>r. Failed network_error) (Some alice) ''P1''
      (feed_of [post_by ''P1'' ''bob'' 0 False])) = None
   \<and> form_error (handlePostLike (\<lambda>r. Failed network_error) (Some alice) ''P1''
      (feed_of [post_by ''P1'' ''bob'' 0 False])) = None
   \<and> console (handlePostLike (\<lambda>r. Failed network_error) (Some alice) ''P1''
      (feed_of [post_by ''P1'' ''bob'' 0 False])) = [(ERROR, ''Error liking post:'')]"
  by (simp add: handlePostLike_def handlePostLike_start_def feed_of_def post_by_def finish_def
      issue_def)


section \<open>Theorems: notifications of likes and comments\<close>

text \<open>
  C7: creating a like or a comment on a post issues exactly one notification insert,
  addressed to the post's author, when the acting account is not the post's author, and
  none when it is.
\<close>

theorem notification_iff_actor_differs:
  "(findIndex (\<lambda>p. row_id p = pid) (posts w) = Some i \<and> \<not> user_has_liked (posts w ! i)
      \<and> gw (InsertLike pid (uid u)) = Ok ()
    \<longrightarrow> filter is_notification (issued (handlePostLike gw (Some u) pid w))
        = filter is_notification (issued w)
          @ (if user_id (posts w ! i) \<noteq> uid u
             then [InsertNotification (user_id (posts w ! i)) ''like'' pid (uid u) False] else []))
   \<and> (trim (newComment c) \<noteq> [] \<and> gw (InsertComment cpid (uid u) (trim (newComment c))) = Ok ()
    \<longrightarrow> filter is_notification (comment_issued (handleSubmit_comment gw (Some u) cpid author c))
        = filter is_notification (comment_issued c)
          @ (if uid u \<noteq> author
             then [InsertNotification author ''comment'' cpid (uid u) False] else []))"
proof (intro conjI impI)
  assume "findIndex (\<lambda>p. row_id p = pid) (posts w) = Some i \<and> \<not> user_has_liked (posts w ! i)
      \<and> gw (InsertLike pid (uid u)) = Ok ()"
  then show "filter is_notification (issued (handlePostLike gw (Some u) pid w))
        = filter is_notification (issued w)
          @ (if user_id (posts w ! i) \<noteq> uid u
             then [InsertNotification (user_id (posts w ! i)) ''like'' pid (uid u) False] else [])"
    by (cases "gw (InsertNotification (user_id (posts w ! i)) ''like'' pid (uid u) False)")
       (simp_all add: handlePostLike_def handlePostLike_start_def Let_def finish_def issue_def)
next
  assume "trim (newComment c) \<noteq> [] \<and> gw (InsertComment cpid (uid u) (trim (newComment c))) = Ok ()"
  then show "filter is_notification (comment_issued (handleSubmit_comment gw (Some u) cpid author c))
        = filter is_notification (comment_issued c)
          @ (if uid u \<noteq> author
             then [InsertNotification author ''comment'' cpid (uid u) False] else [])"
    by (cases "gw (InsertNotification author ''comment'' cpid (uid u) False)")
       (simp_all add: handleSubmit_comment_def Let_def comment_caught_def)
qed

text \<open>A draft that is empty after \<open>trim()\<close> is not submitted: no request is issued.\<close>

lemma blank_comment_not_submitted:
  "trim (newComment c) = [] \<Longrightarrow> handleSubmit_comment gw user cpid author c = c"
  by (simp add: handleSubmit_comment_def split: option.splits)

lemma no_break_space_is_blank: "trim [0xA0, 0x20, 0x3000] = []"
  by (simp add: trim_def is_space_def)

theorem notification_iff_actor_differs_witness:
  "issued (handlePostLike (\<lambda>r. Ok ()) (Some alice) ''P1'' (feed_of [post_by ''P1'' ''bob'' 0 False]))
     = [InsertLike ''P1'' ''alice'', InsertNotification ''bob'' ''like'' ''P1'' ''alice'' False]
   \<and> filter is_notification
       (issued (handlePostLike (\<lambda>r. Ok ()) (Some alice) ''P1'' (feed_of [post_by ''P1'' ''alice'' 0 False])))
     = []
   \<and> filter is_notification
       (comment_issued (handleSubmit_comment (\<lambda>r. Ok ()) (Some alice) ''P1'' ''bob''
          (section_of (js '' nice ''))))
     = [InsertNotification ''bob'' ''comment'' ''P1'' ''alice'' False]
   \<and> filter is_notification
       (comment_issued (handleSubmit_comment (\<lambda>r. Ok ()) (Some alice) ''P1'' ''alice''
          (section_of (js '' nice ''))))
     = []"
proof -
  have t: "trim (newComment (section_of (js '' nice ''))) = js ''nice''"
    by (simp add: section_of_def trim_def is_space_def js_def)
  have n: "js ''nice'' \<noteq> []"
    by (simp add: js_def)
  have a: "issued (handlePostLike (\<lambda>r. Ok ()) (Some alice) ''P1'' (feed_of [post_by ''P1'' ''bob'' 0 False]))
     = [InsertLike ''P1'' ''alice'', InsertNotification ''bob'' ''like'' ''P1'' ''alice'' False]"
    by (simp add: handlePostLike_def handlePostLike_start_def feed_of_def post_by_def finish_def
        issue_def alice_def)
  have b: "filter is_notification
       (issued (handlePostLike (\<lambda>r. Ok ()) (Some alice) ''P1'' (feed_of [post_by ''P1'' ''alice'' 0 False])))
     = []"
    using notification_iff_actor_differs
      [of "''P1''" "feed_of [post_by ''P1'' ''alice'' 0 False]" 0 "\<lambda>r. Ok ()" alice
          "section_of (js '' nice '')" "''P1''" "''bob''"]
    by (simp add: feed_of_def post_by_def alice_def)
  have c: "filter is_notification
       (comment_issued (handleSubmit_comment (\<lambda>r. Ok ()) (Some alice) ''P1'' ''bob''
          (section_of (js '' nice ''))))
     = [InsertNotification ''bob'' ''comment'' ''P1'' ''alice'' False]"
    using notification_iff_actor_differs
      [of "''P1''" "feed_of [post_by ''P1'' ''alice'' 0 False]" 0 "\<lambda>r. Ok ()" alice
          "section_of (js '' nice '')" "''P1''" "''bob''"] t n
    by (simp add: section_of_def alice_def)
  have d: "filter is_notification
       (comment_issued (handleSubmit_comment (\<lambda>r. Ok ()) (Some alice) ''P1'' ''alice''
          (section_of (js '' nice ''))))
     = []"
    using notification_iff_actor_differs
      [of "''P1''" "feed_of [post_by ''P1'' ''alice'' 0 False]" 0 "\<lambda>r. Ok ()" alice
          "section_of (js '' nice '')" "''P1''" "''alice''"] t n
    by (simp add: section_of_def alice_def)
  from a b c d show ?thesis by simp
qed

section \<open>Theorems: the view caches under change events\<close>

lemma length_without: "k < length xs \<Longrightarrow> length (take k xs @ drop (Suc k) xs) = length xs - 1"
  by simp

lemma view_run_appends:
  assumes "\<And>d c. h (Ok d) c = c @ [g d]" "\<And>e c. h (Failed e) c = c" "\<And>x c. h (Thrown x) c = c"
  shows "cache (view_run h es v) = cache v @ map g (settled es (length (fetching v)))"
proof (induction es arbitrary: v)
  case Nil
  then show ?case by simp
next
  case (Cons e es)
  show ?case
  proof (cases e)
    case (Incoming i)
    with Cons.IH [of "v\<lparr>fetching := fetching v @ [i]\<rparr>"] show ?thesis by simp
  next
    case (FetchSettled k rep)
    show ?thesis
    proof (cases "k < length (fetching v)")
      case True
      let ?v = "v\<lparr>cache := h rep (cache v),
                   fetching := take k (fetching v) @ drop (Suc k) (fetching v)\<rparr>"
      from True have l: "length (fetching ?v) = length (fetching v) - 1"
        by (simp add: length_without)
      from Cons.IH [of ?v] l True FetchSettled show ?thesis
        by (cases rep) (simp_all add: assms)
    next
      case False
      with Cons.IH [of v] FetchSettled show ?thesis by simp
    qed
  qed
qed

lemma view_run_prepends:
  assumes "\<And>d c. h (Ok d) c = g d # c" "\<And>e c. h (Failed e) c = c" "\<And>x c. h (Thrown x) c = c"
  shows "cache (view_run h es v) = rev (map g (settled es (length (fetching v)))) @ cache v"
proof (induction es arbitrary: v)
  case Nil
  then show ?case by simp
next
  case (Cons e es)
  show ?case
  proof (cases e)
    case (Incoming i)
    with Cons.IH [of "v\<lparr>fetching := fetching v @ [i]\<rparr>"] show ?thesis by simp
  next
    case (FetchSettled k rep)
    show ?thesis
    proof (cases "k < length (fetching v)")
      case True
      let ?v = "v\<lparr>cache := h rep (cache v),
                   fetching := take k (fetching v) @ drop (Suc k) (fetching v)\<rparr>"
      from True have l: "length (fetching ?v) = length (fetching v) - 1"
        by (simp add: length_without)
      from Cons.IH [of ?v] l True FetchSettled show ?thesis
        by (cases rep) (simp_all add: assms)
    next
      case False
      with Cons.IH [of v] FetchSettled show ?thesis by simp
    qed
  qed
qed

lemma comments_in_resolution_order:
  "cache (view_run commentsSubscription es v) = cache v @ settled es (length (fetching v))"
  using view_run_appends [of commentsSubscription "\<lambda>d. d" es v]
  by (simp add: commentsSubscription_def)

lemma messages_in_resolution_order:
  "cache (view_run messagesSubscription es v) = cache v @ settled es (length (fetching v))"
  using view_run_appends [of messagesSubscription "\<lambda>d. d" es v]
  by (simp add: messagesSubscription_def)

lemma posts_in_resolution_order:
  "cache (view_run (postsSubscription u) es v)
     = rev (map (newPost u) (settled es (length (fetching v)))) @ cache v"
  using view_run_prepends [of "postsSubscription u" "newPost u" es v]
  by (simp add: postsSubscription_def)

lemma notifications_in_resolution_order:
  "cache (view_run notificationsSubscription es v)
     = rev (settled es (length (fetching v))) @ cache v"
  using view_run_prepends [of notificationsSubscription "\<lambda>d. d" es v]
  by (simp add: notificationsSubscription_def)

lemma row_id_newPost: "row_id (newPost u f) = row_id (data f)"
  by (simp add: newPost_def)

text \<open>The order in the cache is the order in which the fetches resolve, not the order
  in which the events were delivered: \<open>m1\<close> is delivered before \<open>m2\<close>, the fetch of
  \<open>m2\<close> resolves first, and \<open>m2\<close> stands before \<open>m1\<close>.\<close>

lemma later_event_first_in_cache:
  "cache (view_run messagesSubscription
      [Incoming ''m1'', Incoming ''m2'', FetchSettled 1 (Ok (comment_by ''m2'' ''bob'')),
       FetchSettled 0 (Ok (comment_by ''m1'' ''alice''))]
      \<lparr>cache = [], fetching = []\<rparr>)
   = [comment_by ''m2'' ''bob'', comment_by ''m1'' ''alice'']"
  by (simp add: messagesSubscription_def)

text \<open>
  C2 (as amended): after any sequence of insert events and resolutions of their fetches,
  a cache holds its previous entries in their previous order, with the rows whose fetch
  succeeded behind them (comments, chat messages) or in front of them (feed posts,
  notifications) in the order in which the fetches resolved; it has no duplicate ids
  whenever the previous entries and those rows have pairwise distinct ids. The handlers
  do not look at the ids already cached.
\<close>

theorem caches_follow_resolution_order:
  "cache (view_run commentsSubscription es v) = cache v @ settled es (length (fetching v))
   \<and> cache (view_run messagesSubscription es v) = cache v @ settled es (length (fetching v))
   \<and> cache (view_run (postsSubscription u) fs pv)
     = rev (map (newPost u) (settled fs (length (fetching pv)))) @ cache pv
   \<and> cache (view_run notificationsSubscription ns nv)
     = rev (settled ns (length (fetching nv))) @ cache nv
   \<and> (distinct (map row_id (cache v @ settled es (length (fetching v))))
        \<longrightarrow> distinct (map row_id (cache (view_run commentsSubscription es v)))
          \<and> distinct (map row_id (cache (view_run messagesSubscription es v))))
   \<and> (distinct (map row_id (cache pv)
                 @ map (\<lambda>f. row_id (data f)) (settled fs (length (fetching pv))))
        \<longrightarrow> distinct (map row_id (cache (view_run (postsSubscription u) fs pv))))
   \<and> (distinct (map row_id (cache nv @ settled ns (length (fetching nv))))
        \<longrightarrow> distinct (map row_id (cache (view_run notificationsSubscription ns nv))))"
proof -
  have feed_ok: "distinct (map row_id (cache (view_run (postsSubscription u) fs pv)))"
    if "distinct (map row_id (cache pv)
                 @ map (\<lambda>f. row_id (data f)) (settled fs (length (fetching pv))))"
  proof -
    have "map row_id (cache (view_run (postsSubscription u) fs pv))
        = rev (map (\<lambda>f. row_id (data f)) (settled fs (length (fetching pv)))) @ map row_id (cache pv)"
      by (simp add: posts_in_resolution_order rev_map row_id_newPost comp_def)
    with that show ?thesis by auto
  qed
  have bell_ok: "distinct (map row_id (cache (view_run notificationsSubscription ns nv)))"
    if "distinct (map row_id (cache nv @ settled ns (length (fetching nv))))"
    using that by (auto simp: notifications_in_resolution_order rev_map [symmetric])
  show ?thesis
    using feed_ok bell_ok
    by (simp add: comments_in_resolution_order messages_in_resolution_order
        posts_in_resolution_order notifications_in_resolution_order)
qed

theorem caches_follow_resolution_order_witness:
  "cache (view_run commentsSubscription
      [Incoming ''c2'', Incoming ''c3'', Incoming ''c4'',
       FetchSettled 1 (Ok (comment_by ''c3'' ''alice'')), FetchSettled 1 (Failed network_error),
       FetchSettled 0 (Ok (comment_by ''c2'' ''bob''))]
      \<lparr>cache = [comment_by ''c1'' ''alice''], fetching = []\<rparr>)
     = [comment_by ''c1'' ''alice'', comment_by ''c3'' ''alice'', comment_by ''c2'' ''bob'']
   \<and> distinct (map row_id (cache (view_run commentsSubscription
      [Incoming ''c2'', Incoming ''c3'', Incoming ''c4'',
       FetchSettled 1 (Ok (comment_by ''c3'' ''alice'')), FetchSettled 1 (Failed network_error),
       FetchSettled 0 (Ok (comment_by ''c2'' ''bob''))]
      \<lparr>cache = [comment_by ''c1'' ''alice''], fetching = []\<rparr>)))"
proof -
  let ?es = "[Incoming ''c2'', Incoming ''c3'', Incoming ''c4'',
       FetchSettled 1 (Ok (comment_by ''c3'' ''alice'')), FetchSettled 1 (Failed network_error),
       FetchSettled 0 (Ok (comment_by ''c2'' ''bob''))]"
  let ?v = "\<lparr>cache = [comment_by ''c1'' ''alice''], fetching = []\<rparr>"
  have s: "settled ?es (length (fetching ?v)) = [comment_by ''c3'' ''alice'', comment_by ''c2'' ''bob'']"
    by simp
  have h: "distinct (map row_id (cache ?v @ settled ?es (length (fetching ?v))))"
    unfolding s by (simp add: comment_by_def)
  have e: "cache ?v @ settled ?es (length (fetching ?v))
      = [comment_by ''c1'' ''alice'', comment_by ''c3'' ''alice'', comment_by ''c2'' ''bob'']"
    unfolding s by simp
  have r: "cache (view_run commentsSubscription ?es ?v) = cache ?v @ settled ?es (length (fetching ?v))"
    and d: "distinct (map row_id (cache (view_run commentsSubscription ?es ?v)))"
    using caches_follow_resolution_order [of ?es ?v alice "[]" "\<lparr>cache = [], fetching = []\<rparr>" "[]"
        "\<lparr>cache = [], fetching = []\<rparr>"] h
    by blast+
  from r e have "cache (view_run commentsSubscription ?es ?v)
      = [comment_by ''c1'' ''alice'', comment_by ''c3'' ''alice'', comment_by ''c2'' ''bob'']"
    by (rule trans)
  with d show ?thesis
    by blast
qed

text \<open>
  The claim as stated fails: the same comment delivered twice is appended twice, so the
  cache differs from the one that received it once and holds a duplicate id; the same
  holds for chat messages.
\<close>

theorem duplicate_event_counterexample:
  "cache (view_run commentsSubscription
      [Incoming ''c1'', FetchSettled 0 (Ok (comment_by ''c1'' ''bob'')),
       Incoming ''c1'', FetchSettled 0 (Ok (comment_by ''c1'' ''bob''))]
      \<lparr>cache = [], fetching = []\<rparr>)
     \<noteq> cache (view_run commentsSubscription
      [Incoming ''c1'', FetchSettled 0 (Ok (comment_by ''c1'' ''bob''))]
      \<lparr>cache = [], fetching = []\<rparr>)
   \<and> \<not> distinct (map row_id (cache (view_run commentsSubscription
      [Incoming ''c1'', FetchSettled 0 (Ok (comment_by ''c1'' ''bob'')),
       Incoming ''c1'', FetchSettled 0 (Ok (comment_by ''c1'' ''bob''))]
      \<lparr>cache = [], fetching = []\<rparr>)))
   \<and> \<not> distinct (map row_id (cache (view_run messagesSubscription
      [Incoming ''m1'', FetchSettled 0 (Ok (comment_by ''m1'' ''bob'')),
       Incoming ''m1'', FetchSettled 0 (Ok (comment_by ''m1'' ''bob''))]
      \<lparr>cache = [], fetching = []\<rparr>)))"
  by (simp add: commentsSubscription_def messagesSubscription_def)

section \<open>Theorems: creating a post\<close>






text \<open>The feed's fetch joins the post's likes: for a post that has no like row when the
  fetch runs, \<open>.single()\<close> has no row to give and the handler leaves the cache as it is.\<close>

lemma unliked_post_not_fetched:
  "like_rows a = [] \<Longrightarrow> posts (on_post_insert u Fine (Some a) w) = posts w"
  by (simp add: on_post_insert_def postsSubscription_def fetchNewPost_def)




section \<open>Theorems: starting a chat\<close>

text \<open>What the lookup gets right: when the first chat that both users are members of is
  a direct chat, the handler navigates to it and inserts nothing.\<close>

lemma createOrGetChat_first_match_direct:
  assumes "existingChatsFault fl = Fine" "matchingChatsFault fl = Fine" "chatFault fl = Fine"
    and "[c. (c, m) \<leftarrow> chat_members db, m = other,
            c \<in> set [c. (c, m) \<leftarrow> chat_members db, m = me]] = first # rest"
    and "[ch \<leftarrow> chats db. row_id ch = first \<and> \<not> is_group ch] = [d]"
  shows "pushed (createOrGetChat fl newId now me other db) = Some (''/messages?chat='' @ first)
         \<and> backend_after (createOrGetChat fl newId now me other db) = db"
proof -
  from assms(5) have "d \<in> set [ch \<leftarrow> chats db. row_id ch = first \<and> \<not> is_group ch]"
    by simp
  then have d: "row_id d = first" by simp
  have "first \<in> set [c. (c, m) \<leftarrow> chat_members db, m = other,
            c \<in> set [c. (c, m) \<leftarrow> chat_members db, m = me]]"
    unfolding assms(4) by simp
  then have "first \<in> set [c. (c, m) \<leftarrow> chat_members db, m = me]"
    by (auto split: if_splits)
  then have ne: "[c. (c, m) \<leftarrow> chat_members db, m = me] \<noteq> []"
    by (metis empty_iff empty_set)
  show ?thesis
    using assms d ne by (auto simp add: createOrGetChat_def Let_def single_def)
qed

text \<open>
  C5: the claim does not hold of the code. A direct chat \<open>D\<close> between Alice and Bob
  exists, and they also share the group chat \<open>G\<close>, whose membership rows come first.
  Only the first chat they share is looked up as a direct chat; it is the group, the
  lookup finds nothing, and the handler inserts a second direct chat \<open>N\<close> and navigates
  to it.
\<close>

theorem shared_group_hides_direct_chat:
  "direct_chat_between shared_group_db ''alice'' ''bob'' ''D''
   \<and> pushed (createOrGetChat no_faults ''N'' ''2024-01-03'' ''alice'' ''bob'' shared_group_db)
     = Some ''/messages?chat=N''
   \<and> map row_id (chats (backend_after
        (createOrGetChat no_faults ''N'' ''2024-01-03'' ''alice'' ''bob'' shared_group_db)))
     = [''G'', ''D'', ''N'']
   \<and> direct_chat_between
        (backend_after (createOrGetChat no_faults ''N'' ''2024-01-03'' ''alice'' ''bob'' shared_group_db))
        ''alice'' ''bob'' ''N''"
  by (simp add: createOrGetChat_def create_direct_chat_def no_faults_def shared_group_db_def
      single_def direct_chat_between_def)

section \<open>Theorems: profile provisioning at sign-in\<close>

lemma createProfileIfNeeded_returns:
  "escaped (createProfileIfNeeded toLowerCase rs r10000 r1000 u) = None"
  by (simp add: createProfileIfNeeded_def Let_def split: option.splits)

text \<open>
  C6: whatever the profile table check, the profile read and the profile insert reply
  (success, error or exception), the provisioning helper returns normally, and the
  handler of the session change ends with the same user, session, loading flag and
  navigation as for any other replies, in particular as when provisioning succeeds; on a
  sign-in the user and session are those of the event, loading is over and the page goes
  to the home page. Only the console output and the requests issued depend on the replies.
\<close>

theorem provisioning_never_blocks_sign_in:
  "escaped (createProfileIfNeeded toLowerCase rs r10000 r1000 u) = None
   \<and> ctx_user (onAuthStateChange toLowerCase rs r10000 r1000 ev sess a)
     = ctx_user (onAuthStateChange toLowerCase rs' r10000' r1000' ev sess a)
   \<and> ctx_session (onAuthStateChange toLowerCase rs r10000 r1000 ev sess a)
     = ctx_session (onAuthStateChange toLowerCase rs' r10000' r1000' ev sess a)
   \<and> isLoading (onAuthStateChange toLowerCase rs r10000 r1000 ev sess a)
     = isLoading (onAuthStateChange toLowerCase rs' r10000' r1000' ev sess a)
   \<and> href (onAuthStateChange toLowerCase rs r10000 r1000 ev sess a)
     = href (onAuthStateChange toLowerCase rs' r10000' r1000' ev sess a)
   \<and> ctx_user (onAuthStateChange toLowerCase rs r10000 r1000 SIGNED_IN (Some s) a)
     = Some (session_user s)
   \<and> ctx_session (onAuthStateChange toLowerCase rs r10000 r1000 SIGNED_IN (Some s) a) = Some s
   \<and> isLoading (onAuthStateChange toLowerCase rs r10000 r1000 SIGNED_IN (Some s) a) = False
   \<and> href (onAuthStateChange toLowerCase rs r10000 r1000 SIGNED_IN (Some s) a) = Some ''/''"
  by (simp add: createProfileIfNeeded_returns onAuthStateChange_def Let_def split: option.splits)

theorem provisioning_never_blocks_sign_in_witness:
  "ctx_user (onAuthStateChange ascii_lower all_thrown 7 7 SIGNED_IN
        (Some \<lparr>access_token = ''t'', session_user = bob\<rparr>) signed_out)
     = ctx_user (onAuthStateChange ascii_lower provisioned 7 7 SIGNED_IN
        (Some \<lparr>access_token = ''t'', session_user = bob\<rparr>) signed_out)
   \<and> ctx_user (onAuthStateChange ascii_lower insert_refused 7 7 SIGNED_IN
        (Some \<lparr>access_token = ''t'', session_user = bob\<rparr>) signed_out)
     = Some bob
   \<and> href (onAuthStateChange ascii_lower insert_refused 7 7 SIGNED_IN
        (Some \<lparr>access_token = ''t'', session_user = bob\<rparr>) signed_out)
     = Some ''/''
   \<and> auth_console (onAuthStateChange ascii_lower insert_refused 7 7 SIGNED_IN
        (Some \<lparr>access_token = ''t'', session_user = bob\<rparr>) signed_out)
     = [(LOG, ''Auth state changed:''), (ERROR, ''Error creating profile:''),
        (LOG, ''Redirecting to home after sign in'')]"
proof -
  have c: "auth_console (onAuthStateChange ascii_lower insert_refused 7 7 SIGNED_IN
        (Some \<lparr>access_token = ''t'', session_user = bob\<rparr>) signed_out)
     = [(LOG, ''Auth state changed:''), (ERROR, ''Error creating profile:''),
        (LOG, ''Redirecting to home after sign in'')]"
    by (simp add: onAuthStateChange_def createProfileIfNeeded_def createProfile_try_def
        insert_refused_def signed_out_def Let_def)
  have w1: "ctx_user (onAuthStateChange ascii_lower all_thrown 7 7 SIGNED_IN
        (Some \<lparr>access_token = ''t'', session_user = bob\<rparr>) signed_out)
     = ctx_user (onAuthStateChange ascii_lower provisioned 7 7 SIGNED_IN
        (Some \<lparr>access_token = ''t'', session_user = bob\<rparr>) signed_out)"
    using provisioning_never_blocks_sign_in
      [of ascii_lower all_thrown 7 7 bob SIGNED_IN
          "Some \<lparr>access_token = ''t'', session_user = bob\<rparr>"
          signed_out provisioned 7 7 "\<lparr>access_token = ''t'', session_user = bob\<rparr>"]
    by blast
  have w2: "ctx_user (onAuthStateChange ascii_lower insert_refused 7 7 SIGNED_IN
        (Some \<lparr>access_token = ''t'', session_user = bob\<rparr>) signed_out)
     = Some (session_user \<lparr>access_token = ''t'', session_user = bob\<rparr>)
     \<and> href (onAuthStateChange ascii_lower insert_refused 7 7 SIGNED_IN
        (Some \<lparr>access_token = ''t'', session_user = bob\<rparr>) signed_out) = Some ''/''"
    using provisioning_never_blocks_sign_in
      [of ascii_lower insert_refused 7 7 bob SIGNED_IN
          "Some \<lparr>access_token = ''t'', session_user = bob\<rparr>"
          signed_out provisioned 7 7 "\<lparr>access_token = ''t'', session_user = bob\<rparr>"]
    by blast
  from w1 w2 c show ?thesis by simp
qed

section \<open>Theorems: the provisioned username\<close>

lemma decimal_nonempty: "decimal n \<noteq> []"
  by (subst decimal.simps) simp

lemma decimal_inject: "decimal n = decimal m \<Longrightarrow> n = m"
proof (induction n arbitrary: m rule: decimal.induct)
  case (1 n)
  show ?case
  proof (cases "n < 10")
    case True
    show ?thesis
    proof (cases "m < 10")
      case True
      with \<open>n < 10\<close> "1.prems" show ?thesis
        by (simp add: decimal.simps [of n] decimal.simps [of m] digit_def)
    next
      case False
      with \<open>n < 10\<close> "1.prems" show ?thesis
        using decimal_nonempty [of "m div 10"]
        by (simp add: decimal.simps [of n] decimal.simps [of m])
    qed
  next
    case False
    show ?thesis
    proof (cases "m < 10")
      case True
      with \<open>\<not> n < 10\<close> "1.prems" show ?thesis
        using decimal_nonempty [of "n div 10"]
        by (simp add: decimal.simps [of n] decimal.simps [of m])
    next
      case mf: False
      from \<open>\<not> n < 10\<close> mf "1.prems"
      have e: "decimal (n div 10) = decimal (m div 10)" "digit (n mod 10) = digit (m mod 10)"
        by (simp_all add: decimal.simps [of n] decimal.simps [of m])
      from "1.IH" [OF False e(1)] have d: "n div 10 = m div 10" .
      from e(2) have r: "n mod 10 = m mod 10"
        by (simp add: digit_def)
      from d r show ?thesis
        by (metis div_mult_mod_eq)
    qed
  qed
qed

lemma split_first: "\<exists>rest. split c xs = takeWhile (\<lambda>x. x \<noteq> c) xs # rest"
  by (induction xs) (auto split: list.splits)

text \<open>
  C8 (as amended): the username is a base followed by the decimal digits of a random
  integer (\<open>Math.floor(Math.random() * 1000)\<close>). For an account with a full name the
  base is the full name with its whitespace removed, in lower case; for one without a full
  name but with an email it is the part of the email before the first \<open>@\<close>. In both
  cases the base is a function of the identity metadata alone, and two provisioning runs
  on identical metadata derive the same username exactly when they draw the same random
  suffix. For an account with neither, the base is \<open>user\<close> followed by the digits of a
  second random integer (\<open>Math.floor(Math.random() * 10000)\<close>), so the username is
  fixed by the two random numbers only.
\<close>

theorem username_from_identity_and_draws:
  "(metadata_full_name u \<noteq> []
      \<longrightarrow> generate_username toLowerCase u a r
        = toLowerCase (filter (\<lambda>c. \<not> is_space c) (metadata_full_name u)) @ decimal r)
   \<and> (metadata_full_name u = [] \<and> or_empty (email u) \<noteq> []
      \<longrightarrow> generate_username toLowerCase u a r
        = takeWhile (\<lambda>c. c \<noteq> 0x40) (or_empty (email u)) @ decimal r)
   \<and> (metadata_full_name u = [] \<and> or_empty (email u) = []
      \<longrightarrow> generate_username toLowerCase u a r = js ''user'' @ decimal a @ decimal r)
   \<and> (metadata_full_name u \<noteq> [] \<or> or_empty (email u) \<noteq> []
      \<longrightarrow> username_base toLowerCase u a = username_base toLowerCase u b
        \<and> (generate_username toLowerCase u a r = generate_username toLowerCase u b r') = (r = r'))"
proof -
  obtain rest where sp: "split 0x40 (or_empty (email u))
      = takeWhile (\<lambda>c. c \<noteq> 0x40) (or_empty (email u)) # rest"
    using split_first [of "0x40" "or_empty (email u)"] by auto
  have same: "username_base toLowerCase u a = username_base toLowerCase u b
        \<and> (generate_username toLowerCase u a r = generate_username toLowerCase u b r') = (r = r')"
    if "metadata_full_name u \<noteq> [] \<or> or_empty (email u) \<noteq> []"
  proof -
    from that have base: "username_base toLowerCase u a = username_base toLowerCase u b"
      by (auto simp: username_base_def)
    have "(generate_username toLowerCase u a r = generate_username toLowerCase u b r')
        = (decimal r = decimal r')"
      by (simp add: generate_username_def base)
    also have "\<dots> = (r = r')"
      by (auto dest: decimal_inject)
    finally show ?thesis
      using base by simp
  qed
  have named: "generate_username toLowerCase u a r
        = toLowerCase (filter (\<lambda>c. \<not> is_space c) (metadata_full_name u)) @ decimal r"
    if "metadata_full_name u \<noteq> []"
    using that by (simp add: generate_username_def username_base_def)
  have mailed: "generate_username toLowerCase u a r
        = takeWhile (\<lambda>c. c \<noteq> 0x40) (or_empty (email u)) @ decimal r"
    if "metadata_full_name u = [] \<and> or_empty (email u) \<noteq> []"
    using that by (simp add: generate_username_def username_base_def sp)
  have bare: "generate_username toLowerCase u a r = js ''user'' @ decimal a @ decimal r"
    if "metadata_full_name u = [] \<and> or_empty (email u) = []"
    using that by (simp add: generate_username_def username_base_def)
  from named mailed bare same show ?thesis
    by blast
qed

theorem username_from_identity_and_draws_witness:
  "generate_username ascii_lower alice 0 42 = js ''alicedoe42''
   \<and> generate_username ascii_lower alice 5 42 = generate_username ascii_lower alice 0 42
   \<and> generate_username ascii_lower bob 0 7 = js ''bob7''
   \<and> generate_username ascii_lower
        \<lparr>uid = ''carol'', email = None, user_metadata = None\<rparr> 12 3 = js ''user123''"
proof -
  let ?carol = "\<lparr>uid = ''carol'', email = None, user_metadata = None\<rparr>"
  have ha: "metadata_full_name alice \<noteq> []"
    by (simp add: metadata_full_name_def or_empty_def alice_def js_def)
  have hb: "metadata_full_name bob = [] \<and> or_empty (email bob) \<noteq> []"
    by (simp add: metadata_full_name_def or_empty_def bob_def js_def)
  have hc: "metadata_full_name ?carol = [] \<and> or_empty (email ?carol) = []"
    by (simp add: metadata_full_name_def or_empty_def)
  have d: "decimal 42 = js ''42''" "decimal 7 = js ''7''" "decimal 12 = js ''12''"
    "decimal 3 = js ''3''"
    by (simp_all add: decimal.simps digit_def js_def)
  have na: "ascii_lower (filter (\<lambda>c. \<not> is_space c) (metadata_full_name alice)) = js ''alicedoe''"
    by (simp add: metadata_full_name_def or_empty_def alice_def js_def is_space_def ascii_lower_def)
  have nb: "takeWhile (\<lambda>c. c \<noteq> 0x40) (or_empty (email bob)) = js ''bob''"
    by (simp add: or_empty_def bob_def js_def)
  have a: "generate_username ascii_lower alice 0 42 = js ''alicedoe42''"
    using username_from_identity_and_draws [of alice ascii_lower 0 42 5 42] ha
    by (simp add: na d js_def)
  have k: "generate_username ascii_lower alice 5 42 = generate_username ascii_lower alice 0 42"
    using username_from_identity_and_draws [of alice ascii_lower 5 42 0 42] ha by blast
  have b: "generate_username ascii_lower bob 0 7 = js ''bob7''"
    using username_from_identity_and_draws [of bob ascii_lower 0 7 0 7] hb
    by (simp add: nb d js_def)
  have c: "generate_username ascii_lower ?carol 12 3 = js ''user123''"
    using username_from_identity_and_draws [of ?carol ascii_lower 12 3 12 3] hc
    by (simp add: d js_def)
  from a k b c show ?thesis by blast
qed

text \<open>
  The claim as stated fails: two runs on Bob's metadata (an email, no full name) that
  draw 1 and 2 derive different usernames.
\<close>

theorem random_suffix_counterexample:
  "generate_username ascii_lower bob 0 1 = js ''bob1''
   \<and> generate_username ascii_lower bob 0 2 = js ''bob2''
   \<and> generate_username ascii_lower bob 0 1 \<noteq> generate_username ascii_lower bob 0 2"
  by (simp add: generate_username_def username_base_def metadata_full_name_def or_empty_def
      bob_def js_def decimal.simps digit_def)

end
